theory Spec2Isabelle
  imports Main
begin

section \<open>Habit streaks kept in task texts (habits.py)\<close>

text \<open>
  The program keeps a streak counter inside the text of a to-do item, as a token
  \<^verbatim>\<open>[day X/G]\<close>, and moves it once per run: forward when the item is still due
  today, back to zero when its due date is another day, and it deletes the item when the
  streak reaches the goal.

  Modelling decisions, all of them visible in the definitions below:
  \<^item> A Python \<^verbatim>\<open>str\<close> is a list of code points. Texts are \<open>string\<close>s, so a
    character is a code point below 256. In this range \<^verbatim>\<open>\d\<close> matches exactly
    the ten ASCII digits and \<^verbatim>\<open>\s\<close> matches the code points 9 to 13, 28 to 32,
    133 and 160 (what \<^verbatim>\<open>str.isspace\<close> accepts there).
  \<^item> Python integers are unbounded: \<open>int\<close>. The conversions between integers and
    decimal strings are limited: \<^verbatim>\<open>int(s)\<close> on more than 4300 digits and
    \<^verbatim>\<open>format\<close> of an integer with more than 4300 digits raise
    \<^verbatim>\<open>ValueError\<close> (the default \<^verbatim>\<open>sys.int_info.default_max_str_digits\<close> of
    the interpreter).
  \<^item> An exception is a value: every function that can raise returns \<open>error + 'a\<close>.
  \<^item> The item of the remote store is a record of the fields the program reads. Its
    field \<^verbatim>\<open>due\<close> is \<^verbatim>\<open>None\<close> or a dictionary from field names to strings,
    kept as an association list; a field whose value is null is left out of the list,
    which \<^verbatim>\<open>.get\<close> cannot tell apart. Every item has the keys the program
    reads (the store sends \<^verbatim>\<open>"due": null\<close> for an item without a due date).
  \<^item> The store's \<^verbatim>\<open>item.update(...)\<close> and \<^verbatim>\<open>item.delete()\<close> change the local
    copy of the item and append a command to the queue that \<^verbatim>\<open>commit\<close> sends.
    A task is therefore the pair of the item and the queue.
  \<^item> The date of today is read from the clock by the store collaborator; a pass takes
    it as an argument.
\<close>

subsection \<open>Errors\<close>

datatype error =
    AttributeError
  | ValueError
  | Exception string

subsection \<open>The token grammar\<close>

text \<open>The character classes \<^verbatim>\<open>\d\<close> and \<^verbatim>\<open>\s\<close> on code points below 256.\<close>

definition is_digit :: "char \<Rightarrow> bool" where
  "is_digit c = (of_char c \<in> {48 .. 57 :: nat})"

definition is_space :: "char \<Rightarrow> bool" where
  "is_space c =
     (of_char c \<in> set [9, 10, 11, 12, 13, 28, 29, 30, 31, 32, 133, 160 :: nat])"

text \<open>
  The language of the pattern \<^verbatim>\<open>\[day\s(\d+)\/(\d+)]\<close>: the strings that are
  \<^verbatim>\<open>[day\<close>, one space character, a run of digits, a slash, a run of digits and
  \<^verbatim>\<open>]\<close>. A text has a token when one of its substrings is in the language.
\<close>

definition is_token :: "string \<Rightarrow> bool" where
  "is_token m =
     (\<exists>w d1 d2. is_space w \<and> d1 \<noteq> [] \<and> d2 \<noteq> [] \<and> list_all is_digit d1 \<and>
        list_all is_digit d2 \<and> m = ''[day'' @ [w] @ d1 @ ''/'' @ d2 @ '']'')"

definition has_token :: "string \<Rightarrow> bool" where
  "has_token s = (\<exists>p m r. s = p @ m @ r \<and> is_token m)"

text \<open>
  Matching the pattern at the head of a string. Both groups are greedy, and what
  follows each of them is not a digit, so the longest run of digits is the only one that
  can be completed to a match. The result is the two groups and the text after the
  match.
\<close>

definition match_here :: "string \<Rightarrow> (string \<times> string \<times> string) option" where
  "match_here s =
     (if take 4 s \<noteq> ''[day'' then None
      else
        (case drop 4 s of
           [] \<Rightarrow> None
         | w # r \<Rightarrow>
             (if \<not> is_space w then None
              else
                (let d1 = takeWhile is_digit r in
                   if d1 = [] then None
                   else
                     (case dropWhile is_digit r of
                        [] \<Rightarrow> None
                      | c # r2 \<Rightarrow>
                          (if c \<noteq> CHR ''/'' then None
                           else
                             (let d2 = takeWhile is_digit r2 in
                                if d2 = [] then None
                                else
                                  (case dropWhile is_digit r2 of
                                     [] \<Rightarrow> None
                                   | e # rest \<Rightarrow>
                                       (if e = CHR '']'' then Some (d1, d2, rest)
                                        else None)))))))))"

text \<open>
  A match object of \<^verbatim>\<open>re.search\<close>: the two groups, with the text before the
  match and the text after it (the span of the match).
\<close>

record re_match =
  m_pre :: string
  group1 :: string
  group2 :: string
  m_post :: string

text \<open>\<^verbatim>\<open>re.search(pattern, s)\<close>: the leftmost match, or nothing.\<close>

fun search :: "string \<Rightarrow> re_match option" where
  "search [] = None"
| "search (c # cs) =
     (case match_here (c # cs) of
        Some (d1, d2, r) \<Rightarrow> Some \<lparr>m_pre = [], group1 = d1, group2 = d2, m_post = r\<rparr>
      | None \<Rightarrow>
          (case search cs of
             None \<Rightarrow> None
           | Some m \<Rightarrow> Some (m\<lparr>m_pre := c # m_pre m\<rparr>)))"

text \<open>
  \<^verbatim>\<open>re.sub(pattern, repl, s)\<close> for a replacement without backslashes: the text is
  scanned from the left, every match is replaced, and the scan goes on after the match.
\<close>

function sub :: "string \<Rightarrow> string \<Rightarrow> string" where
  "sub repl [] = []"
| "sub repl (c # cs) =
     (case match_here (c # cs) of
        Some (d1, d2, r) \<Rightarrow> repl @ sub repl r
      | None \<Rightarrow> c # sub repl cs)"
  by pat_completeness auto
termination
proof (relation "measure (\<lambda>(repl, s). length s)")
  show "wf (measure (\<lambda>(repl, s). length s))"
    by simp
next
  fix repl :: string and c cs x2 x y d2 r
  assume m: "match_here (c # cs) = Some x2" and "(x, y) = x2" and "(d2, r) = y"
  then have "match_here (c # cs) = Some (x, d2, r)"
    by simp
  then obtain w rr c2 r2 e
    where a: "drop 4 (c # cs) = w # rr"
      and b: "dropWhile is_digit rr = c2 # r2"
      and d: "dropWhile is_digit r2 = e # r"
    unfolding match_here_def
    by (auto simp: Let_def split: if_splits list.splits)
  have "length (e # r) \<le> length r2"
    unfolding d [symmetric] by (rule length_dropWhile_le)
  moreover have "length (c2 # r2) \<le> length rr"
    unfolding b [symmetric] by (rule length_dropWhile_le)
  moreover have "length (w # rr) \<le> length (c # cs)"
    unfolding a [symmetric] by simp
  ultimately have "length r < length (c # cs)"
    by simp
  then show "((repl, r), repl, c # cs) \<in> measure (\<lambda>(repl, s). length s)"
    by simp
next
  fix repl :: string and c :: char and cs :: string
  show "((repl, cs), repl, c # cs) \<in> measure (\<lambda>(repl, s). length s)"
    by simp
qed

subsection \<open>Integers and digit strings\<close>

text \<open>
  The limit of the interpreter on conversions between integers and decimal strings
  (\<^verbatim>\<open>sys.int_info.default_max_str_digits\<close>).
\<close>

definition max_str_digits :: nat where
  "max_str_digits = 4300"

text \<open>
  \<^verbatim>\<open>'{}'.format(n)\<close> for an integer: its decimal digits, with a sign when negative.
  It raises when there are more digits than the limit; the sign is not counted.
\<close>

fun show_nat :: "nat \<Rightarrow> string" where
  "show_nat n =
     (if n < 10 then [char_of (48 + n)]
      else show_nat (n div 10) @ [char_of (48 + n mod 10)])"

definition py_str :: "int \<Rightarrow> error + string" where
  "py_str i =
     (let ds = show_nat (nat \<bar>i\<bar>) in
      if length ds > max_str_digits then Inl ValueError
      else Inr (if i < 0 then CHR ''-'' # ds else ds))"

text \<open>
  \<^verbatim>\<open>int(s)\<close> on a group of the pattern, which is a non-empty run of digits. It
  raises when the run is longer than the limit; leading zeros are counted. Python
  accepts more than runs of digits (a sign, spaces around, underscores); no group has
  them, and the model raises on every string that is not a run of digits.
\<close>

definition digit_val :: "char \<Rightarrow> int" where
  "digit_val c = int (of_char c) - 48"

definition py_int :: "string \<Rightarrow> error + int" where
  "py_int s =
     (if s \<noteq> [] \<and> list_all is_digit s
      then (if length s > max_str_digits then Inl ValueError
            else Inr (foldl (\<lambda>a c. 10 * a + digit_val c) 0 s))
      else Inl ValueError)"

subsection \<open>The item, the queue of commands and the task\<close>

text \<open>
  The fields of an item that the program reads or writes. \<open>due = None\<close> is the
  item without a due date (\<^verbatim>\<open>"due": null\<close>); \<open>is_deleted\<close> is what
  \<^verbatim>\<open>item.delete()\<close> sets on the local copy.
\<close>

type_synonym due_dict = "(string \<times> string) list"

record todo_item =
  item_id :: nat
  content :: string
  due :: "due_dict option"
  in_history :: bool
  is_deleted :: bool

datatype command =
    Item_update_content nat string
  | Item_update_due nat due_dict
  | Item_delete nat

record task =
  item :: todo_item
  queue :: "command list"

text \<open>
  The store collaborator: \<^verbatim>\<open>item.update(content=text)\<close>,
  \<^verbatim>\<open>item.update(due=d)\<close> and \<^verbatim>\<open>item.delete()\<close>.
\<close>

definition item_update_content :: "string \<Rightarrow> task \<Rightarrow> task" where
  "item_update_content txt t =
     \<lparr>item = (item t)\<lparr>content := txt\<rparr>,
      queue = queue t @ [Item_update_content (item_id (item t)) txt]\<rparr>"

definition item_update_due :: "due_dict \<Rightarrow> task \<Rightarrow> task" where
  "item_update_due d t =
     \<lparr>item = (item t)\<lparr>due := Some d\<rparr>,
      queue = queue t @ [Item_update_due (item_id (item t)) d]\<rparr>"

definition item_delete :: "task \<Rightarrow> task" where
  "item_delete t =
     \<lparr>item = (item t)\<lparr>is_deleted := True\<rparr>,
      queue = queue t @ [Item_delete (item_id (item t))]\<rparr>"

text \<open>\<^verbatim>\<open>self.item['due'].get('date')\<close>: raises when \<^verbatim>\<open>due\<close> is \<^verbatim>\<open>None\<close>.\<close>

definition due_get_date :: "due_dict option \<Rightarrow> error + string option" where
  "due_get_date d =
     (case d of None \<Rightarrow> Inl AttributeError | Some kv \<Rightarrow> Inr (map_of kv ''date''))"

subsection \<open>The class Task\<close>

definition get_habit :: "task \<Rightarrow> re_match option" where
  "get_habit t = search (content (item t))"

text \<open>
  \<^verbatim>\<open>is_habit\<close>: \<^verbatim>\<open>all\<close> of three conditions. The second one reads the date
  only when \<^verbatim>\<open>due\<close> is truthy (neither \<^verbatim>\<open>None\<close> nor an empty dictionary);
  a date is truthy when it is a non-empty string.
\<close>

definition is_habit :: "task \<Rightarrow> error + bool" where
  "is_habit t =
     (let habit = get_habit t in
      case (if due (item t) \<noteq> None \<and> due (item t) \<noteq> Some []
            then due_get_date (due (item t)) else Inr None) of
        Inl e \<Rightarrow> Inl e
      | Inr d \<Rightarrow> Inr (habit \<noteq> None \<and> d \<noteq> None \<and> d \<noteq> Some [] \<and> \<not> in_history (item t)))"

definition due_date :: "task \<Rightarrow> error + string option" where
  "due_date t = due_get_date (due (item t))"

definition is_due :: "string \<Rightarrow> task \<Rightarrow> error + bool" where
  "is_due today t =
     (case due_date t of Inl e \<Rightarrow> Inl e | Inr d \<Rightarrow> Inr (d \<noteq> Some today))"

text \<open>
  \<^verbatim>\<open>habit.group(1)\<close> raises \<^verbatim>\<open>AttributeError\<close> when \<^verbatim>\<open>habit\<close> is
  \<^verbatim>\<open>None\<close>.
\<close>

definition current_streak :: "task \<Rightarrow> error + int" where
  "current_streak t =
     (case get_habit t of None \<Rightarrow> Inl AttributeError | Some habit \<Rightarrow> py_int (group1 habit))"

definition current_goal :: "task \<Rightarrow> error + int" where
  "current_goal t =
     (case get_habit t of None \<Rightarrow> Inl AttributeError | Some habit \<Rightarrow> py_int (group2 habit))"

text \<open>
  \<^verbatim>\<open>'[day {}/{}]'.format(streak, goal)\<close>: the streak is formatted first, then the
  goal; each of the two can raise.
\<close>

definition format_days :: "int \<Rightarrow> int \<Rightarrow> error + string" where
  "format_days streak goal =
     (case py_str streak of
        Inl e \<Rightarrow> Inl e
      | Inr s \<Rightarrow>
          (case py_str goal of
             Inl e \<Rightarrow> Inl e
           | Inr g \<Rightarrow> Inr (''[day '' @ s @ ''/'' @ g @ '']'')))"

definition set_streak :: "int \<Rightarrow> int \<Rightarrow> task \<Rightarrow> error + task" where
  "set_streak streak goal t =
     (case format_days streak goal of
        Inl e \<Rightarrow> Inl e
      | Inr days \<Rightarrow>
          (let txt = sub days (content (item t))
           in Inr (item_update_content txt t)))"

definition increase :: "int \<Rightarrow> task \<Rightarrow> error + task" where
  "increase n t =
     (case current_streak t of
        Inl e \<Rightarrow> Inl e
      | Inr s \<Rightarrow>
          (case current_goal t of
             Inl e \<Rightarrow> Inl e
           | Inr g \<Rightarrow> set_streak (s + n) g t))"

definition ev_day_starting :: "string \<Rightarrow> due_dict" where
  "ev_day_starting today = [(''string'', ''ev day starting '' @ today)]"

definition decrease :: "string \<Rightarrow> task \<Rightarrow> error + task" where
  "decrease today t =
     (case current_streak t of
        Inl e \<Rightarrow> Inl e
      | Inr s \<Rightarrow>
          (let streak = max 0 (s - 1) in
           case current_goal t of
             Inl e \<Rightarrow> Inl e
           | Inr g \<Rightarrow>
               (case set_streak streak g t of
                  Inl e \<Rightarrow> Inl e
                | Inr t1 \<Rightarrow> Inr (item_update_due (ev_day_starting today) t1))))"

definition reset_to_zero :: "string \<Rightarrow> task \<Rightarrow> error + task" where
  "reset_to_zero today t =
     (case current_goal t of
        Inl e \<Rightarrow> Inl e
      | Inr g \<Rightarrow>
          (case set_streak 0 g t of
             Inl e \<Rightarrow> Inl e
           | Inr t1 \<Rightarrow> Inr (item_update_due (ev_day_starting today) t1)))"

definition habbit_complete :: "task \<Rightarrow> error + bool" where
  "habbit_complete t =
     (case current_streak t of
        Inl e \<Rightarrow> Inl e
      | Inr s \<Rightarrow>
          (case current_goal t of
             Inl e \<Rightarrow> Inl e
           | Inr g \<Rightarrow> Inr (s \<ge> g)))"

definition delete_task :: "task \<Rightarrow> task" where
  "delete_task t = item_delete t"

subsection \<open>The class Todoist\<close>

text \<open>
  \<^verbatim>\<open>get_token\<close> reads the environment, a map from names to strings;
  \<^verbatim>\<open>not token\<close> holds for \<^verbatim>\<open>None\<close> and for the empty string.
\<close>

definition get_token :: "(string \<rightharpoonup> string) \<Rightarrow> error + string" where
  "get_token env =
     (case env ''TODOIST_APIKEY'' of
        None \<Rightarrow> Inl (Exception ''Please set the API token in environment variable.'')
      | Some token \<Rightarrow>
          (if token = [] then Inl (Exception ''Please set the API token in environment variable.'')
           else Inr token))"

text \<open>The body of the loop of \<^verbatim>\<open>update_streak\<close>, for one item.\<close>

definition update_item :: "string \<Rightarrow> task \<Rightarrow> error + task" where
  "update_item today t =
     (case is_habit t of
        Inl e \<Rightarrow> Inl e
      | Inr False \<Rightarrow> Inr t
      | Inr True \<Rightarrow>
          (case is_due today t of
             Inl e \<Rightarrow> Inl e
           | Inr True \<Rightarrow> reset_to_zero today t
           | Inr False \<Rightarrow>
               (case increase 1 t of
                  Inl e \<Rightarrow> Inl e
                | Inr t1 \<Rightarrow>
                    (case habbit_complete t1 of
                       Inl e \<Rightarrow> Inl e
                     | Inr True \<Rightarrow> Inr (delete_task t1)
                     | Inr False \<Rightarrow> Inr t1))))"

text \<open>
  The loop over the items, in their order; an exception ends the pass. The queue is
  shared by all items. \<^verbatim>\<open>update_streak\<close> returns the items after the pass and the
  commands that \<^verbatim>\<open>commit\<close> sends.
\<close>

fun update_items :: "string \<Rightarrow> todo_item list \<Rightarrow> command list \<Rightarrow> error + todo_item list \<times> command list" where
  "update_items today [] q = Inr ([], q)"
| "update_items today (it # its) q =
     (case update_item today \<lparr>item = it, queue = q\<rparr> of
        Inl e \<Rightarrow> Inl e
      | Inr t \<Rightarrow>
          (case update_items today its (queue t) of
             Inl e \<Rightarrow> Inl e
           | Inr (its', q') \<Rightarrow> Inr (item t # its', q')))"

definition update_streak :: "string \<Rightarrow> todo_item list \<Rightarrow> error + todo_item list \<times> command list" where
  "update_streak today items = update_items today items []"

subsection \<open>Notions of the specification\<close>

text \<open>
  The reading of \<^verbatim>\<open>renderToken\<close> in which only the first match is replaced, by
  the rendered token \<open>days\<close>, and the text after it is kept as it is. It is compared
  with \<open>set_streak\<close> below.
\<close>

definition renderToken_first :: "string \<Rightarrow> string \<Rightarrow> string" where
  "renderToken_first days txt =
     (case search txt of
        None \<Rightarrow> txt
      | Some m \<Rightarrow> m_pre m @ days @ m_post m)"

text \<open>
  A plain decimal numeral: a non-empty run of digits that starts with \<^verbatim>\<open>0\<close> only
  when it is \<^verbatim>\<open>0\<close> itself.
\<close>

definition plain_decimal :: "string \<Rightarrow> bool" where
  "plain_decimal d = (d \<noteq> [] \<and> list_all is_digit d \<and> (d = ''0'' \<or> hd d \<noteq> CHR ''0''))"

text \<open>
  The outcome of a pass for one item, read off the commands the pass queued for it:
  nothing, a new text alone, a new text with a new due date, a new text with a removal.
  Every other sequence of commands is no outcome.
\<close>

datatype outcome = Skip | Reset | Increment | Increment_Delete

fun outcome_of :: "command list \<Rightarrow> outcome option" where
  "outcome_of [] = Some Skip"
| "outcome_of [Item_update_content i txt] = Some Increment"
| "outcome_of [Item_update_content i txt, Item_update_due j d] = Some Reset"
| "outcome_of [Item_update_content i txt, Item_delete j] = Some Increment_Delete"
| "outcome_of cmds = None"

definition resets :: "command list \<Rightarrow> bool" where
  "resets cmds = list_ex (\<lambda>c. case c of Item_update_due i d \<Rightarrow> True | _ \<Rightarrow> False) cmds"

definition deletes :: "command list \<Rightarrow> bool" where
  "deletes cmds = list_ex (\<lambda>c. case c of Item_delete i \<Rightarrow> True | _ \<Rightarrow> False) cmds"

text \<open>
  The items on which the loop body does not run into the limit on digits: an item that
  is no active habit; an active habit due on another day whose goal can be read; an
  active habit due today whose streak and goal can be read and whose next streak can
  be written.
\<close>

definition within_limit :: "string \<Rightarrow> todo_item \<Rightarrow> bool" where
  "within_limit today it =
     (let t = \<lparr>item = it, queue = []\<rparr> in
      is_habit t = Inr False \<or>
      (is_due today t = Inr True \<and> (\<exists>g. current_goal t = Inr g)) \<or>
      (is_due today t = Inr False \<and>
       (\<exists>s g. current_streak t = Inr s \<and> current_goal t = Inr g \<and>
          s + 1 < 10 ^ max_str_digits)))"

text \<open>
  A task whose token has the two given runs of digits, and the run of \<open>n\<close> nines.
\<close>

definition token_task :: "string \<Rightarrow> string \<Rightarrow> string \<Rightarrow> task" where
  "token_task d1 d2 d =
     \<lparr>item = \<lparr>item_id = 1, content = ''[day '' @ d1 @ ''/'' @ d2 @ '']'',
              due = Some [(''date'', d)], in_history = False, is_deleted = False\<rparr>,
      queue = []\<rparr>"

definition nines :: "nat \<Rightarrow> string" where
  "nines n = replicate n CHR ''9''"

text \<open>The tasks of the scenarios: an item with a text and a due date, not archived.\<close>

definition habit_task :: "string \<Rightarrow> string \<Rightarrow> task" where
  "habit_task txt d =
     \<lparr>item = \<lparr>item_id = 1, content = txt, due = Some [(''date'', d)],
              in_history = False, is_deleted = False\<rparr>,
      queue = []\<rparr>"

section \<open>The matcher and the grammar\<close>

lemma not_digit_slash [simp]: "\<not> is_digit CHR ''/''" "\<not> is_digit CHR '']''" "\<not> is_digit CHR ''[''"
  by (simp_all add: is_digit_def)

lemma not_space_bracket [simp]: "\<not> is_space CHR ''[''"
  by (simp add: is_space_def)

lemma digits_split:
  assumes "list_all is_digit d" and "\<not> is_digit c"
  shows "takeWhile is_digit (d @ c # r) = d" and "dropWhile is_digit (d @ c # r) = c # r"
  using assms by (simp_all add: list_all_iff)

lemma match_here_complete:
  assumes "is_space w" "d1 \<noteq> []" "d2 \<noteq> []" "list_all is_digit d1" "list_all is_digit d2"
  shows "match_here (''[day'' @ [w] @ d1 @ ''/'' @ d2 @ '']'' @ r) = Some (d1, d2, r)"
  using assms by (simp add: match_here_def digits_split)

lemma match_here_sound:
  assumes "match_here s = Some (d1, d2, r)"
  shows "\<exists>w. is_space w \<and> d1 \<noteq> [] \<and> d2 \<noteq> [] \<and> list_all is_digit d1 \<and> list_all is_digit d2 \<and>
          s = ''[day'' @ [w] @ d1 @ ''/'' @ d2 @ '']'' @ r"
proof -
  from assms obtain w rr r2
    where h: "take 4 s = ''[day''" and a: "drop 4 s = w # rr" and w: "is_space w"
      and d1: "d1 = takeWhile is_digit rr" "d1 \<noteq> []"
      and b: "dropWhile is_digit rr = CHR ''/'' # r2"
      and d2: "d2 = takeWhile is_digit r2" "d2 \<noteq> []"
      and d: "dropWhile is_digit r2 = CHR '']'' # r"
    unfolding match_here_def
    by (auto simp: Let_def split: if_splits list.splits)
  have "s = take 4 s @ drop 4 s"
    by simp
  also have "\<dots> = ''[day'' @ w # rr"
    by (simp only: h a)
  also have "rr = d1 @ CHR ''/'' # r2"
    using takeWhile_dropWhile_id [of is_digit rr] by (simp add: d1 b)
  also have "r2 = d2 @ CHR '']'' # r"
    using takeWhile_dropWhile_id [of is_digit r2] by (simp add: d2 d)
  finally have "s = ''[day'' @ [w] @ d1 @ ''/'' @ d2 @ '']'' @ r"
    by simp
  moreover have "list_all is_digit d1" "list_all is_digit d2"
    by (auto simp: d1 d2 list_all_iff dest: set_takeWhileD)
  ultimately show ?thesis
    using w d1 d2 by blast
qed

lemma match_here_iff:
  "match_here s = Some (d1, d2, r) \<longleftrightarrow>
     (\<exists>w. is_space w \<and> d1 \<noteq> [] \<and> d2 \<noteq> [] \<and> list_all is_digit d1 \<and> list_all is_digit d2 \<and>
          s = ''[day'' @ [w] @ d1 @ ''/'' @ d2 @ '']'' @ r)"
  using match_here_sound match_here_complete by blast

lemma match_here_Nil [simp]: "match_here [] = None"
  by (simp add: match_here_def)

lemma is_space_blank [simp]: "is_space CHR '' ''"
  by (simp add: is_space_def)

lemma match_here_barrier:
  assumes "u \<noteq> []" and "match_here (u @ CHR ''['' # y) = Some (d1, d2, r)"
  shows "\<exists>r0. r = r0 @ CHR ''['' # y \<and> (\<forall>z. match_here (u @ z) = Some (d1, d2, r0 @ z))"
proof -
  from match_here_sound [OF assms(2)] obtain w
    where w: "is_space w" and d: "d1 \<noteq> []" "d2 \<noteq> []" "list_all is_digit d1" "list_all is_digit d2"
      and eq: "u @ CHR ''['' # y = ''[day'' @ [w] @ d1 @ ''/'' @ d2 @ '']'' @ r"
    by blast
  define M where "M = ''day'' @ [w] @ d1 @ ''/'' @ d2 @ '']''"
  have nb: "CHR ''['' \<notin> set M"
    using w d by (auto simp: M_def list_all_iff)
  from assms(1) obtain a u' where u: "u = a # u'"
    by (cases u) auto
  from eq have a: "a = CHR ''[''" and eq': "u' @ CHR ''['' # y = M @ r"
    by (simp_all add: u M_def)
  from eq' obtain us where "(u' = M @ us \<and> us @ CHR ''['' # y = r) \<or> (u' @ us = M \<and> CHR ''['' # y = us @ r)"
    unfolding append_eq_append_conv2 by blast
  then obtain r0 where r0: "u' = M @ r0" "r = r0 @ CHR ''['' # y"
  proof
    assume "u' = M @ us \<and> us @ CHR ''['' # y = r"
    then show ?thesis using that by blast
  next
    assume h: "u' @ us = M \<and> CHR ''['' # y = us @ r"
    show ?thesis
    proof (cases us)
      case Nil
      with h that [of "[]"] show ?thesis by simp
    next
      case (Cons b us')
      with h have "CHR ''['' \<in> set M" by auto
      with nb show ?thesis by simp
    qed
  qed
  have "match_here (u @ z) = Some (d1, d2, r0 @ z)" for z
    using match_here_complete [OF w d, of "r0 @ z"] by (simp add: u a r0 M_def)
  with r0 show ?thesis by blast
qed

lemma match_here_barrier_None:
  assumes "u \<noteq> []" and "match_here (u @ CHR ''['' # y) = None"
  shows "match_here (u @ CHR ''['' # y') = None"
proof (cases "match_here (u @ CHR ''['' # y')")
  case None
  then show ?thesis .
next
  case (Some x)
  then obtain d1 d2 r where "match_here (u @ CHR ''['' # y') = Some (d1, d2, r)"
    by (cases x) auto
  from match_here_barrier [OF assms(1) this] assms(2) show ?thesis
    by auto
qed

lemma match_here_bracket:
  assumes "match_here x = Some (d1, d2, r)"
  shows "\<exists>y. x = CHR ''['' # y"
  using match_here_sound [OF assms] by auto

lemma search_SomeD:
  assumes "search t = Some m"
  shows "\<exists>x. t = m_pre m @ x \<and> match_here x = Some (group1 m, group2 m, m_post m) \<and>
           (\<forall>p1 p2. m_pre m = p1 @ p2 \<longrightarrow> p2 \<noteq> [] \<longrightarrow> match_here (p2 @ x) = None)"
  using assms
proof (induction t arbitrary: m)
  case Nil
  then show ?case by simp
next
  case (Cons c cs)
  show ?case
  proof (cases "match_here (c # cs)")
    case (Some a)
    with Cons.prems show ?thesis
      by (cases a) (auto simp: )
  next
    case None
    with Cons.prems obtain m' where m': "search cs = Some m'" and m: "m = m'\<lparr>m_pre := c # m_pre m'\<rparr>"
      by (auto split: option.splits)
    from Cons.IH [OF m'] obtain x where x: "cs = m_pre m' @ x"
        "match_here x = Some (group1 m', group2 m', m_post m')"
        "\<forall>p1 p2. m_pre m' = p1 @ p2 \<longrightarrow> p2 \<noteq> [] \<longrightarrow> match_here (p2 @ x) = None"
      by blast
    have "match_here (p2 @ x) = None" if "c # m_pre m' = p1 @ p2" "p2 \<noteq> []" for p1 p2
    proof (cases p1)
      case Nil
      with that have "p2 = c # m_pre m'" by simp
      with None x(1) show ?thesis by simp
    next
      case (Cons b p1')
      with that x(3) show ?thesis by simp
    qed
    with x(1,2) show ?thesis
      by (auto simp: m intro!: exI [of _ x])
  qed
qed

lemma search_NoneD:
  assumes "search t = None"
  shows "match_here (drop i t) = None"
  using assms
proof (induction t arbitrary: i)
  case Nil
  then show ?case by simp
next
  case (Cons c cs)
  then show ?case
    by (cases i) (auto split: option.splits)
qed

lemma search_first:
  assumes "match_here x = Some (d1, d2, r)"
    and "\<And>p1 p2. p = p1 @ p2 \<Longrightarrow> p2 \<noteq> [] \<Longrightarrow> match_here (p2 @ x) = None"
  shows "search (p @ x) = Some \<lparr>m_pre = p, group1 = d1, group2 = d2, m_post = r\<rparr>"
  using assms(2)
proof (induction p)
  case Nil
  from assms(1) obtain c cs where "x = c # cs"
    by (cases x) auto
  with assms(1) show ?case by simp
next
  case (Cons c p)
  have "match_here ((c # p) @ x) = None"
    using Cons.prems [of "[]" "c # p"] by simp
  moreover have "search (p @ x) = Some \<lparr>m_pre = p, group1 = d1, group2 = d2, m_post = r\<rparr>"
    using Cons.prems by (intro Cons.IH) (metis append_Cons)
  ultimately show ?case by simp
qed

lemma has_token_search: "has_token t \<longleftrightarrow> search t \<noteq> None"
proof
  assume "has_token t"
  then obtain p m r where t: "t = p @ m @ r" and "is_token m"
    by (auto simp: has_token_def)
  then obtain d1 d2 where "match_here (m @ r) = Some (d1, d2, r)"
    using match_here_complete by (fastforce simp: is_token_def)
  moreover have "drop (length p) t = m @ r"
    by (simp add: t)
  ultimately show "search t \<noteq> None"
    using search_NoneD [of t "length p"] by auto
next
  assume "search t \<noteq> None"
  then obtain m where m: "search t = Some m"
    by auto
  from search_SomeD [OF this] obtain x where x: "t = m_pre m @ x"
    "match_here x = Some (group1 m, group2 m, m_post m)"
    by blast
  from match_here_sound [OF x(2)] obtain w where
    "is_space w" "group1 m \<noteq> []" "group2 m \<noteq> []" "list_all is_digit (group1 m)"
    "list_all is_digit (group2 m)"
    "x = (''[day'' @ [w] @ group1 m @ ''/'' @ group2 m @ '']'') @ m_post m"
    by auto
  then show "has_token t"
    unfolding has_token_def is_token_def x(1) by blast
qed

lemma sub_search_None:
  assumes "search t = None"
  shows "sub repl t = t"
  using assms by (induction t) (auto split: option.splits)

lemma sub_search_Some:
  assumes "search t = Some m"
  shows "sub repl t = m_pre m @ repl @ sub repl (m_post m)"
  using assms
proof (induction t arbitrary: m)
  case Nil
  then show ?case by simp
next
  case (Cons c cs)
  then show ?case
    by (cases "match_here (c # cs)") (auto split: option.splits)
qed

section \<open>Numerals\<close>

declare show_nat.simps [simp del]

lemma is_digit_char_of: "k < 10 \<Longrightarrow> is_digit (char_of (48 + k :: nat))"
  by (simp add: is_digit_def)

lemma digit_val_char_of: "k < 10 \<Longrightarrow> digit_val (char_of (48 + k :: nat)) = int k"
  by (simp add: digit_val_def)

lemma show_nat_digits: "list_all is_digit (show_nat n)"
  by (induction n rule: show_nat.induct) (subst show_nat.simps, simp add: is_digit_char_of)

lemma show_nat_not_Nil: "show_nat n \<noteq> []"
  by (subst show_nat.simps) simp

lemma foldl_show_nat:
  "foldl (\<lambda>a c. 10 * a + digit_val c) 0 (show_nat n) = int n"
proof (induction n rule: show_nat.induct)
  case (1 n)
  show ?case
  proof (cases "n < 10")
    case True
    then show ?thesis
      by (subst show_nat.simps) (simp add: digit_val_char_of)
  next
    case False
    with 1 have "foldl (\<lambda>a c. 10 * a + digit_val c) 0 (show_nat (n div 10)) = int (n div 10)"
      by simp
    with False show ?thesis
      by (subst show_nat.simps) (simp add: digit_val_char_of zdiv_int zmod_int)
  qed
qed

lemma show_nat_no_leading_zero: "0 < n \<Longrightarrow> hd (show_nat n) \<noteq> CHR ''0''"
proof (induction n rule: show_nat.induct)
  case (1 n)
  show ?case
  proof (cases "n < 10")
    case True
    have "char_of (48 + n) = CHR ''0'' \<longleftrightarrow> of_char (char_of (48 + n) :: char) = (of_char CHR ''0'' :: nat)"
      by (simp only: of_char_eq_iff)
    with True 1(2) show ?thesis
      by (subst show_nat.simps) simp
  next
    case False
    with 1 have "hd (show_nat (n div 10)) \<noteq> CHR ''0''"
      by simp
    with False show ?thesis
      by (subst show_nat.simps) (simp add: show_nat_not_Nil)
  qed
qed

text \<open>The number of digits of a number, against a power of ten.\<close>

lemma show_nat_length_le:
  "0 < k \<Longrightarrow> n < 10 ^ k \<Longrightarrow> length (show_nat n) \<le> k"
proof (induction n arbitrary: k rule: show_nat.induct)
  case (1 n)
  show ?case
  proof (cases "n < 10")
    case True
    with 1(2) show ?thesis
      by (subst show_nat.simps) simp
  next
    case False
    from 1(2) obtain j where k: "k = Suc j"
      by (cases k) auto
    from False 1(3) have "0 < j"
      by (cases j) (auto simp: k)
    moreover from 1(3) have "n div 10 < 10 ^ j"
      by (simp add: k less_mult_imp_div_less mult.commute)
    ultimately have "length (show_nat (n div 10)) \<le> j"
      using 1(1) False by simp
    with False show ?thesis
      by (subst show_nat.simps) (simp add: k)
  qed
qed

lemma show_nat_length_bound: "n < 10 ^ length (show_nat n)"
proof (induction n rule: show_nat.induct)
  case (1 n)
  show ?case
  proof (cases "n < 10")
    case True
    then show ?thesis
      by (subst show_nat.simps) simp
  next
    case False
    with 1 have "n div 10 < 10 ^ length (show_nat (n div 10))"
      by simp
    then have "n < 10 * 10 ^ length (show_nat (n div 10))"
      by (metis div_less_iff_less_mult mult.commute zero_less_numeral)
    with False show ?thesis
      by (subst show_nat.simps) simp
  qed
qed

lemma show_nat_length_iff:
  "0 < k \<Longrightarrow> length (show_nat n) \<le> k \<longleftrightarrow> n < 10 ^ k"
proof
  assume "0 < k" "length (show_nat n) \<le> k"
  then have "(10::nat) ^ length (show_nat n) \<le> 10 ^ k"
    by (simp add: power_increasing)
  with show_nat_length_bound [of n] show "n < 10 ^ k"
    by (rule less_le_trans)
next
  assume "0 < k" "n < 10 ^ k"
  then show "length (show_nat n) \<le> k"
    by (rule show_nat_length_le)
qed

lemma max_str_digits_pos: "0 < max_str_digits"
  by (simp add: max_str_digits_def)

lemma py_str_nonneg:
  assumes "0 \<le> i"
  shows "py_str i = (if i < 10 ^ max_str_digits then Inr (show_nat (nat i)) else Inl ValueError)"
proof -
  have "length (show_nat (nat i)) \<le> max_str_digits \<longleftrightarrow> nat i < 10 ^ max_str_digits"
    by (rule show_nat_length_iff [OF max_str_digits_pos])
  also have "\<dots> \<longleftrightarrow> i < 10 ^ max_str_digits"
    using assms by (simp add: nat_less_iff)
  finally show ?thesis
    using assms by (auto simp: py_str_def Let_def)
qed

lemma py_str_Inr_iff: "(\<exists>s. py_str i = Inr s) \<longleftrightarrow> \<bar>i\<bar> < 10 ^ max_str_digits"
proof -
  have "length (show_nat (nat \<bar>i\<bar>)) \<le> max_str_digits \<longleftrightarrow> nat \<bar>i\<bar> < 10 ^ max_str_digits"
    by (rule show_nat_length_iff [OF max_str_digits_pos])
  also have "\<dots> \<longleftrightarrow> \<bar>i\<bar> < 10 ^ max_str_digits"
    by (simp add: nat_less_iff)
  finally show ?thesis
    by (auto simp: py_str_def Let_def)
qed

lemma py_str_error: "py_str i = Inl e \<Longrightarrow> e = ValueError"
  by (auto simp: py_str_def Let_def split: if_splits)

lemma py_int_error: "py_int s = Inl e \<Longrightarrow> e = ValueError"
  by (auto simp: py_int_def split: if_splits)

lemma foldl_digits_nonneg:
  "0 \<le> a \<Longrightarrow> list_all is_digit d \<Longrightarrow> 0 \<le> foldl (\<lambda>a c. 10 * a + digit_val c) a d"
  by (induction d arbitrary: a) (auto simp: digit_val_def is_digit_def)

lemma foldl_digits_less:
  "0 \<le> a \<Longrightarrow> list_all is_digit d \<Longrightarrow>
     foldl (\<lambda>a c. 10 * a + digit_val c) a d < (a + 1) * 10 ^ length d"
proof (induction d arbitrary: a)
  case Nil
  then show ?case by simp
next
  case (Cons c d)
  from Cons.prems have v: "0 \<le> digit_val c" "digit_val c \<le> 9"
    by (auto simp: digit_val_def is_digit_def)
  with Cons.prems have "foldl (\<lambda>a c. 10 * a + digit_val c) (10 * a + digit_val c) d
      < (10 * a + digit_val c + 1) * 10 ^ length d"
    by (intro Cons.IH) auto
  also have "\<dots> \<le> (10 * a + 10) * 10 ^ length d"
    using v by (intro mult_right_mono) auto
  finally show ?case
    by (simp add: algebra_simps)
qed

lemma py_int_digits:
  assumes "d \<noteq> []" "list_all is_digit d"
  shows "py_int d =
     (if length d \<le> max_str_digits then Inr (foldl (\<lambda>a c. 10 * a + digit_val c) 0 d)
      else Inl ValueError)"
    and "0 \<le> foldl (\<lambda>a c. 10 * a + digit_val c) 0 d"
    and "length d \<le> max_str_digits \<Longrightarrow>
           foldl (\<lambda>a c. 10 * a + digit_val c) 0 d < 10 ^ max_str_digits"
proof -
  show "py_int d =
     (if length d \<le> max_str_digits then Inr (foldl (\<lambda>a c. 10 * a + digit_val c) 0 d)
      else Inl ValueError)"
    using assms by (auto simp: py_int_def)
  show "0 \<le> foldl (\<lambda>a c. 10 * a + digit_val c) 0 d"
    using assms foldl_digits_nonneg [of 0 d] by simp
  assume "length d \<le> max_str_digits"
  then have "(10::int) ^ length d \<le> 10 ^ max_str_digits"
    by (simp add: power_increasing)
  moreover from foldl_digits_less [of 0 d] assms
  have "foldl (\<lambda>a c. 10 * a + digit_val c) 0 d < 10 ^ length d"
    by simp
  ultimately show "foldl (\<lambda>a c. 10 * a + digit_val c) 0 d < 10 ^ max_str_digits"
    by (rule less_le_trans [rotated])
qed

lemma py_int_show_nat:
  assumes "int n < 10 ^ max_str_digits"
  shows "py_int (show_nat n) = Inr (int n)"
proof -
  from assms have "n < 10 ^ max_str_digits"
    by simp
  then have "length (show_nat n) \<le> max_str_digits"
    by (rule show_nat_length_le [OF max_str_digits_pos])
  then show ?thesis
    by (simp add: py_int_def show_nat_digits show_nat_not_Nil foldl_show_nat)
qed

lemma plain_decimal_show_nat: "plain_decimal (show_nat n)"
proof -
  have "show_nat n = ''0'' \<or> hd (show_nat n) \<noteq> CHR ''0''"
  proof (cases "n = 0")
    case True
    have "show_nat 0 = ''0''"
      by code_simp
    with True show ?thesis by simp
  next
    case False
    then show ?thesis using show_nat_no_leading_zero [of n] by simp
  qed
  then show ?thesis
    by (simp add: plain_decimal_def show_nat_digits show_nat_not_Nil)
qed

text \<open>Runs of nines.\<close>

lemma nines_digits [simp]: "list_all is_digit (nines n)" "length (nines n) = n"
  by (simp_all add: nines_def list_all_iff is_digit_def)

lemma nines_not_Nil [simp]: "0 < n \<Longrightarrow> nines n \<noteq> []"
  by (simp add: nines_def)

lemma foldl_nines:
  "foldl (\<lambda>a c. 10 * a + digit_val c) a (nines n) = (a + 1) * 10 ^ n - 1"
proof (induction n arbitrary: a)
  case 0
  then show ?case by (simp add: nines_def)
next
  case (Suc n)
  have "digit_val CHR ''9'' = 9"
    by (simp add: digit_val_def)
  moreover have "(10 * a + 9 + 1) * 10 ^ n - 1 = (a + 1) * 10 ^ Suc n - (1::int)"
    by (simp add: algebra_simps)
  ultimately show ?case
    using Suc [of "10 * a + 9"] by (simp add: nines_def)
qed

lemma py_int_nines:
  "0 < n \<Longrightarrow> py_int (nines n) =
     (if n \<le> max_str_digits then Inr (10 ^ n - 1) else Inl ValueError)"
  using py_int_digits(1) [of "nines n"] foldl_nines [of 0 n] by simp

section \<open>The methods of a task\<close>

text \<open>Formatting the token: when it raises, and what it gives.\<close>

lemma format_days_nonneg:
  assumes "0 \<le> s" "0 \<le> g"
  shows "format_days s g =
     (if s < 10 ^ max_str_digits \<and> g < 10 ^ max_str_digits
      then Inr (''[day '' @ show_nat (nat s) @ ''/'' @ show_nat (nat g) @ '']'')
      else Inl ValueError)"
  using assms by (simp add: format_days_def py_str_nonneg)

lemma format_days_error: "format_days s g = Inl e \<Longrightarrow> e = ValueError"
  by (auto simp: format_days_def split: sum.splits dest: py_str_error)

lemma format_days_Inr_iff:
  "(\<exists>days. format_days s g = Inr days) \<longleftrightarrow>
     \<bar>s\<bar> < 10 ^ max_str_digits \<and> \<bar>g\<bar> < 10 ^ max_str_digits"
  using py_str_Inr_iff [of s] py_str_Inr_iff [of g]
  by (auto simp: format_days_def split: sum.splits)

lemma match_here_days:
  "match_here ((''[day '' @ show_nat a @ ''/'' @ show_nat b @ '']'') @ x) =
     Some (show_nat a, show_nat b, x)"
  using match_here_complete [of "CHR '' ''" "show_nat a" "show_nat b" x]
  by (simp add: show_nat_digits show_nat_not_Nil)

lemma search_replaced:
  assumes "search t = Some m" and "match_here (CHR ''['' # y) = Some (e1, e2, x)"
  shows "search (m_pre m @ CHR ''['' # y) = Some \<lparr>m_pre = m_pre m, group1 = e1, group2 = e2, m_post = x\<rparr>"
proof (rule search_first [OF assms(2)])
  fix p1 p2
  assume p: "m_pre m = p1 @ p2" "p2 \<noteq> []"
  from search_SomeD [OF assms(1)] obtain x0 where x0: "match_here x0 = Some (group1 m, group2 m, m_post m)"
    "\<forall>p1 p2. m_pre m = p1 @ p2 \<longrightarrow> p2 \<noteq> [] \<longrightarrow> match_here (p2 @ x0) = None"
    by blast
  from match_here_bracket [OF x0(1)] obtain y0 where "x0 = CHR ''['' # y0"
    by blast
  with x0(2) p have "match_here (p2 @ CHR ''['' # y0) = None"
    by blast
  from match_here_barrier_None [OF p(2) this] show "match_here (p2 @ CHR ''['' # y) = None" .
qed

lemma search_sub_days:
  assumes "search t = Some m"
    and "days = ''[day '' @ show_nat a @ ''/'' @ show_nat b @ '']''"
  shows "search (sub days t) =
     Some \<lparr>m_pre = m_pre m, group1 = show_nat a, group2 = show_nat b,
           m_post = sub days (m_post m)\<rparr>"
proof -
  let ?y = "''day '' @ show_nat a @ ''/'' @ show_nat b @ '']''"
  have y: "days = CHR ''['' # ?y"
    by (simp add: assms(2))
  have "match_here (CHR ''['' # ?y @ sub days (m_post m)) =
      Some (show_nat a, show_nat b, sub days (m_post m))"
    using match_here_days [of a b "sub days (m_post m)"] by simp
  from search_replaced [OF assms(1) this]
  have "search (m_pre m @ days @ sub days (m_post m)) =
      Some \<lparr>m_pre = m_pre m, group1 = show_nat a, group2 = show_nat b,
            m_post = sub days (m_post m)\<rparr>"
    unfolding y by simp
  then show ?thesis
    by (simp only: sub_search_Some [OF assms(1)])
qed

text \<open>
  The first match of a text is a token, and no token of the text starts before it.
\<close>

lemma search_token:
  assumes "search t = Some m"
  shows "\<exists>tok. t = m_pre m @ tok @ m_post m \<and> is_token tok"
proof -
  from search_SomeD [OF assms] obtain x where x: "t = m_pre m @ x"
    "match_here x = Some (group1 m, group2 m, m_post m)"
    by blast
  from match_here_sound [OF x(2)] obtain w where
    "is_space w" "group1 m \<noteq> []" "group2 m \<noteq> []" "list_all is_digit (group1 m)"
    "list_all is_digit (group2 m)"
    "x = (''[day'' @ [w] @ group1 m @ ''/'' @ group2 m @ '']'') @ m_post m"
    by auto
  then show ?thesis
    unfolding is_token_def x(1) by blast
qed

lemma search_leftmost:
  assumes "search t = Some m" and "t = p @ tok @ r" and "is_token tok"
  shows "length (m_pre m) \<le> length p"
proof (rule ccontr)
  assume "\<not> length (m_pre m) \<le> length p"
  then have less: "length p < length (m_pre m)"
    by simp
  from search_SomeD [OF assms(1)] obtain x where x: "t = m_pre m @ x"
    "\<forall>p1 p2. m_pre m = p1 @ p2 \<longrightarrow> p2 \<noteq> [] \<longrightarrow> match_here (p2 @ x) = None"
    by blast
  from x(1) assms(2) have eq: "m_pre m @ x = p @ tok @ r"
    by simp
  define p2 where "p2 = drop (length p) (m_pre m)"
  from arg_cong [OF eq, of "take (length p)"] less have "take (length p) (m_pre m) = p"
    by simp
  then have p2: "m_pre m = p @ p2"
    unfolding p2_def by (metis append_take_drop_id)
  from less have "p2 \<noteq> []"
    by (simp add: p2_def)
  from eq have "p2 @ x = tok @ r"
    by (simp add: p2)
  note p2 = p2 \<open>p2 \<noteq> []\<close> this
  from assms(3) obtain d1 d2 where "match_here (tok @ r) = Some (d1, d2, r)"
    using match_here_complete by (fastforce simp: is_token_def)
  moreover from x(2) p2(1,2) have "match_here (p2 @ x) = None"
    by blast
  ultimately show False
    by (simp add: p2(3))
qed

text \<open>
  A group of a match is a non-empty run of digits, so reading it raises only when it is
  longer than the limit, and gives a number that is not negative and can be written.
\<close>

lemma search_groups:
  assumes "search t = Some m"
  shows "group1 m \<noteq> [] \<and> list_all is_digit (group1 m) \<and> group2 m \<noteq> [] \<and> list_all is_digit (group2 m)"
proof -
  from search_SomeD [OF assms] obtain x where "match_here x = Some (group1 m, group2 m, m_post m)"
    by blast
  from match_here_sound [OF this] show ?thesis
    by blast
qed

lemma get_habit_reads:
  assumes "get_habit t = Some m"
  shows "(\<exists>s. current_streak t = Inr s) \<longleftrightarrow> length (group1 m) \<le> max_str_digits"
    and "(\<exists>g. current_goal t = Inr g) \<longleftrightarrow> length (group2 m) \<le> max_str_digits"
    and "current_streak t = Inl e \<Longrightarrow> e = ValueError"
    and "current_goal t = Inl e \<Longrightarrow> e = ValueError"
proof -
  from assms have "search (content (item t)) = Some m"
    by (simp add: get_habit_def)
  from search_groups [OF this]
  have g: "group1 m \<noteq> []" "list_all is_digit (group1 m)" "group2 m \<noteq> []" "list_all is_digit (group2 m)"
    by simp_all
  show "(\<exists>s. current_streak t = Inr s) \<longleftrightarrow> length (group1 m) \<le> max_str_digits"
    using py_int_digits(1) [OF g(1,2)] by (simp add: current_streak_def assms)
  show "(\<exists>g. current_goal t = Inr g) \<longleftrightarrow> length (group2 m) \<le> max_str_digits"
    using py_int_digits(1) [OF g(3,4)] by (simp add: current_goal_def assms)
  show "current_streak t = Inl e \<Longrightarrow> e = ValueError"
    by (simp add: current_streak_def assms py_int_error)
  show "current_goal t = Inl e \<Longrightarrow> e = ValueError"
    by (simp add: current_goal_def assms py_int_error)
qed

lemma streak_range:
  assumes "current_streak t = Inr s"
  shows "\<exists>m. get_habit t = Some m \<and> 0 \<le> s \<and> s < 10 ^ max_str_digits"
proof (cases "get_habit t")
  case None
  with assms show ?thesis by (simp add: current_streak_def)
next
  case (Some m)
  then have "search (content (item t)) = Some m"
    by (simp add: get_habit_def)
  from search_groups [OF this] have g: "group1 m \<noteq> []" "list_all is_digit (group1 m)"
    by simp_all
  from assms Some py_int_digits [OF g] show ?thesis
    by (auto simp: current_streak_def split: if_splits)
qed

lemma goal_range:
  assumes "current_goal t = Inr g"
  shows "\<exists>m. get_habit t = Some m \<and> 0 \<le> g \<and> g < 10 ^ max_str_digits"
proof (cases "get_habit t")
  case None
  with assms show ?thesis by (simp add: current_goal_def)
next
  case (Some m)
  then have "search (content (item t)) = Some m"
    by (simp add: get_habit_def)
  from search_groups [OF this] have g: "group2 m \<noteq> []" "list_all is_digit (group2 m)"
    by simp_all
  from assms Some py_int_digits [OF g] show ?thesis
    by (auto simp: current_goal_def split: if_splits)
qed

text \<open>The gate \<open>is_habit\<close> never raises, and what it accepts.\<close>

lemma is_habit_total: "\<exists>b. is_habit t = Inr b"
  by (auto simp: is_habit_def due_get_date_def Let_def split: option.splits)

lemma is_habit_True_iff:
  "is_habit t = Inr True \<longleftrightarrow>
     get_habit t \<noteq> None \<and>
     (\<exists>kv d. due (item t) = Some kv \<and> map_of kv ''date'' = Some d \<and> d \<noteq> []) \<and>
     \<not> in_history (item t)"
  by (cases "due (item t)") (auto simp: is_habit_def due_get_date_def Let_def)

lemma is_habit_due_date:
  assumes "is_habit t = Inr True"
  shows "\<exists>d. due_date t = Inr (Some d) \<and> d \<noteq> []"
  using assms by (auto simp: is_habit_True_iff due_date_def due_get_date_def)

text \<open>
  Writing a streak and a goal that are not negative and within the limit into a text
  with a token, and reading them back.
\<close>

lemma set_streak_days:
  "format_days s g = Inr days \<Longrightarrow>
     set_streak s g t = Inr (item_update_content (sub days (content (item t))) t)"
  "format_days s g = Inl e \<Longrightarrow> set_streak s g t = Inl e"
  by (simp_all add: set_streak_def)

lemma set_streak_writes:
  assumes "get_habit t = Some m" "0 \<le> s" "s < 10 ^ max_str_digits"
    "0 \<le> g" "g < 10 ^ max_str_digits"
  shows "\<exists>t' days. format_days s g = Inr days \<and> set_streak s g t = Inr t' \<and>
     days = ''[day '' @ show_nat (nat s) @ ''/'' @ show_nat (nat g) @ '']'' \<and>
     item t' = (item t)\<lparr>content := m_pre m @ days @ sub days (m_post m)\<rparr> \<and>
     queue t' = queue t @ [Item_update_content (item_id (item t)) (content (item t'))] \<and>
     get_habit t' = Some \<lparr>m_pre = m_pre m, group1 = show_nat (nat s), group2 = show_nat (nat g),
                         m_post = sub days (m_post m)\<rparr> \<and>
     current_streak t' = Inr s \<and> current_goal t' = Inr g"
proof -
  let ?days = "''[day '' @ show_nat (nat s) @ ''/'' @ show_nat (nat g) @ '']''"
  let ?t' = "item_update_content (sub ?days (content (item t))) t"
  from assms have m: "search (content (item t)) = Some m"
    by (simp add: get_habit_def)
  have f: "format_days s g = Inr ?days"
    using assms by (simp add: format_days_nonneg)
  have u: "set_streak s g t = Inr ?t'"
    by (rule set_streak_days(1) [OF f])
  have c: "sub ?days (content (item t)) = m_pre m @ ?days @ sub ?days (m_post m)"
    by (rule sub_search_Some [OF m])
  have i: "item ?t' = (item t)\<lparr>content := m_pre m @ ?days @ sub ?days (m_post m)\<rparr>"
    unfolding c [symmetric] by (simp add: item_update_content_def)
  have q: "queue ?t' = queue t @ [Item_update_content (item_id (item t)) (content (item ?t'))]"
    by (simp add: item_update_content_def)
  have gh: "get_habit ?t' = Some \<lparr>m_pre = m_pre m, group1 = show_nat (nat s),
      group2 = show_nat (nat g), m_post = sub ?days (m_post m)\<rparr>"
    using search_sub_days [OF m refl, of "nat s" "nat g"]
    by (simp add: get_habit_def item_update_content_def)
  have "py_int (show_nat (nat s)) = Inr s" "py_int (show_nat (nat g)) = Inr g"
    using assms py_int_show_nat [of "nat s"] py_int_show_nat [of "nat g"] by simp_all
  then have p: "current_streak ?t' = Inr s" "current_goal ?t' = Inr g"
    unfolding current_streak_def current_goal_def gh by simp_all
  from f u i q gh p show ?thesis
    by blast
qed

text \<open>The paths of the loop body.\<close>

lemma update_item_not_habit:
  assumes "is_habit t = Inr False"
  shows "update_item today t = Inr t"
  using assms by (simp add: update_item_def)

lemma update_item_reset:
  assumes "is_habit t = Inr True" "due_date t = Inr d" "d \<noteq> Some today" "current_goal t = Inr g"
  shows "\<exists>t1. set_streak 0 g t = Inr t1 \<and>
     update_item today t = Inr (item_update_due (ev_day_starting today) t1)"
proof -
  from goal_range [OF assms(4)] obtain m
    where m: "get_habit t = Some m" "0 \<le> g" "g < 10 ^ max_str_digits"
    by blast
  have "(0::int) < 10 ^ max_str_digits"
    by simp
  from set_streak_writes [OF m(1) order_refl this m(2,3)] obtain t1
    where t1: "set_streak 0 g t = Inr t1"
    by blast
  with assms show ?thesis
    by (simp add: update_item_def is_due_def reset_to_zero_def)
qed

lemma update_item_reset_error:
  assumes "is_habit t = Inr True" "due_date t = Inr d" "d \<noteq> Some today" "current_goal t = Inl e"
  shows "update_item today t = Inl e"
  using assms by (simp add: update_item_def is_due_def reset_to_zero_def)

lemma update_item_increase:
  assumes "is_habit t = Inr True" "due_date t = Inr (Some today)"
    "current_streak t = Inr s" "current_goal t = Inr g" "s + 1 < 10 ^ max_str_digits"
  shows "\<exists>t1. set_streak (s + 1) g t = Inr t1 \<and>
     update_item today t = Inr (if g \<le> s + 1 then delete_task t1 else t1)"
proof -
  from streak_range [OF assms(3)] obtain m where m: "get_habit t = Some m" "0 \<le> s"
    by blast
  from goal_range [OF assms(4)] have g: "0 \<le> g" "g < 10 ^ max_str_digits"
    by auto
  from m(2) have s1: "0 \<le> s + 1"
    by simp
  from set_streak_writes [OF m(1) s1 assms(5) g] obtain t1
    where t1: "set_streak (s + 1) g t = Inr t1"
      "current_streak t1 = Inr (s + 1)" "current_goal t1 = Inr g"
    by blast
  then have "habbit_complete t1 = Inr (g \<le> s + 1)"
    by (simp add: habbit_complete_def)
  with assms t1(1) show ?thesis
    by (simp add: update_item_def is_due_def increase_def)
qed

lemma update_item_increase_error:
  assumes "is_habit t = Inr True" "due_date t = Inr (Some today)"
    and no: "\<not> (\<exists>s g. current_streak t = Inr s \<and> current_goal t = Inr g \<and>
                 s + 1 < 10 ^ max_str_digits)"
  shows "update_item today t = Inl ValueError"
proof -
  from assms(1) obtain m where m: "get_habit t = Some m"
    by (auto simp: is_habit_True_iff)
  have "increase 1 t = Inl ValueError"
  proof (cases "current_streak t")
    case (Inl e)
    with get_habit_reads(3) [OF m] show ?thesis
      by (simp add: increase_def)
  next
    case s: (Inr s)
    show ?thesis
    proof (cases "current_goal t")
      case (Inl e)
      with get_habit_reads(4) [OF m] s show ?thesis
        by (simp add: increase_def)
    next
      case g: (Inr g)
      from no s g have big: "\<not> s + 1 < 10 ^ max_str_digits"
        by simp
      from streak_range [OF s] goal_range [OF g] have "0 \<le> s + 1" "0 \<le> g"
        by auto
      from format_days_nonneg [OF this] big have "format_days (s + 1) g = Inl ValueError"
        by simp
      then have "set_streak (s + 1) g t = Inl ValueError"
        by (rule set_streak_days(2))
      with s g show ?thesis
        by (simp add: increase_def)
    qed
  qed
  with assms(1,2) show ?thesis
    by (simp add: update_item_def is_due_def)
qed

text \<open>
  What a task method reads depends on the item alone, so the commands a pass queues for
  an item do not depend on the queue it finds.
\<close>

lemma observers_item:
  assumes "item t = item u"
  shows "get_habit t = get_habit u" "is_habit t = is_habit u" "due_date t = due_date u"
    "is_due today t = is_due today u" "current_streak t = current_streak u"
    "current_goal t = current_goal u"
  using assms
  by (simp_all add: get_habit_def is_habit_def due_date_def is_due_def current_streak_def
      current_goal_def cong: sum.case_cong)

lemma task_eqI: "item t = i \<Longrightarrow> queue t = q \<Longrightarrow> t = \<lparr>item = i, queue = q\<rparr>"
  by (cases t) simp

lemma update_item_outcome:
  assumes "within_limit today it"
  shows "\<exists>it' cmds oc.
     (\<forall>q. update_item today \<lparr>item = it, queue = q\<rparr> = Inr \<lparr>item = it', queue = q @ cmds\<rparr>) \<and>
     outcome_of cmds = Some oc \<and> \<not> (resets cmds \<and> deletes cmds)"
proof -
  let ?t = "\<lambda>q. \<lparr>item = it, queue = q\<rparr>"
  have obs: "is_habit (?t q) = is_habit (?t [])" "due_date (?t q) = due_date (?t [])"
    "current_streak (?t q) = current_streak (?t [])" "current_goal (?t q) = current_goal (?t [])"
    "get_habit (?t q) = get_habit (?t [])"
    for q
    by (rule observers_item, simp)+
  from is_habit_total [of "?t []"] consider
    (no) "is_habit (?t []) = Inr False" | (yes) "is_habit (?t []) = Inr True"
    by (metis (full_types))
  then show ?thesis
  proof cases
    case no
    then have "update_item today (?t q) = Inr \<lparr>item = it, queue = q @ []\<rparr>" for q
      using obs [of q] by (simp add: update_item_not_habit)
    then show ?thesis
      by (intro exI [of _ it] exI [of _ "[]"] exI [of _ Skip]) (simp add: resets_def)
  next
    case yes
    from is_habit_due_date [OF yes] obtain d where d: "due_date (?t []) = Inr (Some d)"
      by blast
    show ?thesis
    proof (cases "d = today")
      case False
      with assms yes d obtain g where g: "current_goal (?t []) = Inr g"
        by (auto simp: within_limit_def Let_def is_due_def)
      from goal_range [OF g] obtain m
        where m: "get_habit (?t []) = Some m" "0 \<le> g" "g < 10 ^ max_str_digits"
        by blast
      let ?days = "''[day '' @ show_nat (nat 0) @ ''/'' @ show_nat (nat g) @ '']''"
      let ?txt = "m_pre m @ ?days @ sub ?days (m_post m)"
      let ?it' = "it\<lparr>content := ?txt, due := Some (ev_day_starting today)\<rparr>"
      let ?cmds = "[Item_update_content (item_id it) ?txt,
                    Item_update_due (item_id it) (ev_day_starting today)]"
      have "update_item today (?t q) = Inr \<lparr>item = ?it', queue = q @ ?cmds\<rparr>" for q
      proof -
        have hq: "is_habit (?t q) = Inr True" "due_date (?t q) = Inr (Some d)"
          "current_goal (?t q) = Inr g" "get_habit (?t q) = Some m"
          using yes d g m(1) obs [of q] by simp_all
        have z: "(0::int) < 10 ^ max_str_digits"
          by simp
        from set_streak_writes [OF hq(4) order_refl z m(2,3)] obtain t1
          where t1: "set_streak 0 g (?t q) = Inr t1"
            "item t1 = it\<lparr>content := ?txt\<rparr>"
            "queue t1 = q @ [Item_update_content (item_id it) ?txt]"
          by auto
        from update_item_reset [OF hq(1,2) _ hq(3), of today] False t1(1)
        have "update_item today (?t q) = Inr (item_update_due (ev_day_starting today) t1)"
          by auto
        also have "item_update_due (ev_day_starting today) t1 = \<lparr>item = ?it', queue = q @ ?cmds\<rparr>"
          by (rule task_eqI) (simp_all add: item_update_due_def t1(2,3))
        finally show ?thesis .
      qed
      then show ?thesis
        by (intro exI [of _ ?it'] exI [of _ ?cmds] exI [of _ Reset])
          (simp add: resets_def deletes_def)
    next
      case True
      with assms yes d obtain s g where sg: "current_streak (?t []) = Inr s"
        "current_goal (?t []) = Inr g" "s + 1 < 10 ^ max_str_digits"
        by (auto simp: within_limit_def Let_def is_due_def)
      from streak_range [OF sg(1)] obtain m where m: "get_habit (?t []) = Some m" "0 \<le> s"
        by blast
      from goal_range [OF sg(2)] have g: "0 \<le> g" "g < 10 ^ max_str_digits"
        by auto
      from m(2) have s1: "0 \<le> s + 1"
        by simp
      let ?days = "''[day '' @ show_nat (nat (s + 1)) @ ''/'' @ show_nat (nat g) @ '']''"
      let ?txt = "m_pre m @ ?days @ sub ?days (m_post m)"
      let ?it' = "it\<lparr>content := ?txt, is_deleted := (is_deleted it \<or> g \<le> s + 1)\<rparr>"
      let ?cmds = "Item_update_content (item_id it) ?txt #
                    (if g \<le> s + 1 then [Item_delete (item_id it)] else [])"
      have "update_item today (?t q) = Inr \<lparr>item = ?it', queue = q @ ?cmds\<rparr>" for q
      proof -
        have hq: "is_habit (?t q) = Inr True" "due_date (?t q) = Inr (Some today)"
          "current_streak (?t q) = Inr s" "current_goal (?t q) = Inr g" "get_habit (?t q) = Some m"
          using yes d True sg m(1) obs [of q] by simp_all
        from set_streak_writes [OF hq(5) s1 sg(3) g] obtain t1
          where t1: "set_streak (s + 1) g (?t q) = Inr t1"
            "item t1 = it\<lparr>content := ?txt\<rparr>"
            "queue t1 = q @ [Item_update_content (item_id it) ?txt]"
          by auto
        from update_item_increase [OF hq(1,2,3,4) sg(3)] t1(1)
        have "update_item today (?t q) = Inr (if g \<le> s + 1 then delete_task t1 else t1)"
          by auto
        also have "(if g \<le> s + 1 then delete_task t1 else t1) = \<lparr>item = ?it', queue = q @ ?cmds\<rparr>"
          by (rule task_eqI) (simp_all add: delete_task_def item_delete_def t1(2,3))
        finally show ?thesis .
      qed
      then show ?thesis
        by (intro exI [of _ ?it'] exI [of _ ?cmds]
              exI [of _ "if g \<le> s + 1 then Increment_Delete else Increment"])
          (simp add: resets_def deletes_def)
    qed
  qed
qed

lemma update_item_over_limit:
  assumes "\<not> within_limit today it"
  shows "update_item today \<lparr>item = it, queue = q\<rparr> = Inl ValueError"
proof -
  let ?t = "\<lambda>q. \<lparr>item = it, queue = q\<rparr>"
  have obs: "is_habit (?t q) = is_habit (?t [])" "due_date (?t q) = due_date (?t [])"
    "current_streak (?t q) = current_streak (?t [])" "current_goal (?t q) = current_goal (?t [])"
    "get_habit (?t q) = get_habit (?t [])"
    by (rule observers_item, simp)+
  from assms is_habit_total [of "?t []"] have yes: "is_habit (?t []) = Inr True"
    by (auto simp: within_limit_def Let_def)
  then obtain m where m: "get_habit (?t []) = Some m"
    by (auto simp: is_habit_True_iff)
  from is_habit_due_date [OF yes] obtain d where d: "due_date (?t []) = Inr (Some d)"
    by blast
  show ?thesis
  proof (cases "d = today")
    case False
    with assms d have "\<not> (\<exists>g. current_goal (?t []) = Inr g)"
      by (auto simp: within_limit_def Let_def is_due_def)
    then obtain e where e: "current_goal (?t []) = Inl e"
      by (cases "current_goal (?t [])") auto
    with get_habit_reads(4) [OF m] have "current_goal (?t []) = Inl ValueError"
      by simp
    with yes d False obs show ?thesis
      by (intro update_item_reset_error [where d = "Some d"]) simp_all
  next
    case True
    with assms d have "\<not> (\<exists>s g. current_streak (?t []) = Inr s \<and> current_goal (?t []) = Inr g \<and>
                 s + 1 < 10 ^ max_str_digits)"
      by (auto simp: within_limit_def Let_def is_due_def)
    with yes d True obs show ?thesis
      by (intro update_item_increase_error) simp_all
  qed
qed

lemma update_items_outcomes:
  assumes "list_all (within_limit today) its"
  shows "\<exists>res. update_items today its q = Inr (map fst res, q @ concat (map snd res)) \<and>
     list_all2
       (\<lambda>it (it', cmds).
          update_item today \<lparr>item = it, queue = []\<rparr> = Inr \<lparr>item = it', queue = cmds\<rparr> \<and>
          (\<exists>!oc. outcome_of cmds = Some oc) \<and> \<not> (resets cmds \<and> deletes cmds))
       its res"
  using assms
proof (induction its arbitrary: q)
  case Nil
  show ?case
    by (rule exI [of _ "[]"]) simp
next
  case (Cons it its)
  from Cons.prems have "within_limit today it" and rest: "list_all (within_limit today) its"
    by simp_all
  from update_item_outcome [OF this(1)] obtain it' cmds oc
    where step: "\<And>q. update_item today \<lparr>item = it, queue = q\<rparr> = Inr \<lparr>item = it', queue = q @ cmds\<rparr>"
      and oc: "outcome_of cmds = Some oc" and nrd: "\<not> (resets cmds \<and> deletes cmds)"
    by blast
  from Cons.IH [OF rest, of "q @ cmds"] obtain res
    where res: "update_items today its (q @ cmds) = Inr (map fst res, (q @ cmds) @ concat (map snd res))"
      and all: "list_all2
       (\<lambda>it (it', cmds).
          update_item today \<lparr>item = it, queue = []\<rparr> = Inr \<lparr>item = it', queue = cmds\<rparr> \<and>
          (\<exists>!oc. outcome_of cmds = Some oc) \<and> \<not> (resets cmds \<and> deletes cmds))
       its res"
    by blast
  have "update_items today (it # its) q =
      Inr (map fst ((it', cmds) # res), q @ concat (map snd ((it', cmds) # res)))"
    by (simp add: step res)
  moreover have "update_item today \<lparr>item = it, queue = []\<rparr> = Inr \<lparr>item = it', queue = cmds\<rparr>"
    using step [of "[]"] by simp
  moreover have "\<exists>!oc. outcome_of cmds = Some oc"
    using oc by simp
  ultimately show ?case
    using all nrd by (intro exI [of _ "(it', cmds) # res"]) simp
qed

lemma update_items_over_limit:
  assumes "\<not> list_all (within_limit today) its"
  shows "update_items today its q = Inl ValueError"
  using assms
proof (induction its arbitrary: q)
  case Nil
  then show ?case by simp
next
  case (Cons it its)
  show ?case
  proof (cases "within_limit today it")
    case False
    then show ?thesis
      by (simp add: update_item_over_limit)
  next
    case True
    from update_item_outcome [OF True] obtain it' cmds
      where step: "update_item today \<lparr>item = it, queue = q\<rparr> = Inr \<lparr>item = it', queue = q @ cmds\<rparr>"
      by blast
    from True Cons.prems have "\<not> list_all (within_limit today) its"
      by simp
    from Cons.IH [OF this, of "q @ cmds"] step show ?thesis
      by simp
  qed
qed

text \<open>Tasks whose token is given by its two runs of digits.\<close>

lemma get_habit_token_task:
  assumes "d1 \<noteq> []" "list_all is_digit d1" "d2 \<noteq> []" "list_all is_digit d2"
  shows "get_habit (token_task d1 d2 d) =
     Some \<lparr>m_pre = [], group1 = d1, group2 = d2, m_post = []\<rparr>"
  using match_here_complete [OF is_space_blank assms(1,3,2,4), of "[]"]
  by (simp add: get_habit_def token_task_def)

lemma is_habit_token_task:
  assumes "d1 \<noteq> []" "list_all is_digit d1" "d2 \<noteq> []" "list_all is_digit d2" "d \<noteq> []"
  shows "is_habit (token_task d1 d2 d) = Inr True" "due_date (token_task d1 d2 d) = Inr (Some d)"
    "current_streak (token_task d1 d2 d) = py_int d1" "current_goal (token_task d1 d2 d) = py_int d2"
    "has_token (content (item (token_task d1 d2 d)))"
proof -
  note gh = get_habit_token_task [OF assms(1-4), of d]
  show "is_habit (token_task d1 d2 d) = Inr True"
    unfolding is_habit_True_iff gh using assms(5) by (simp add: token_task_def)
  show "due_date (token_task d1 d2 d) = Inr (Some d)"
    by (simp add: due_date_def due_get_date_def token_task_def)
  show "current_streak (token_task d1 d2 d) = py_int d1"
    by (simp add: current_streak_def gh)
  show "current_goal (token_task d1 d2 d) = py_int d2"
    by (simp add: current_goal_def gh)
  from gh show "has_token (content (item (token_task d1 d2 d)))"
    by (simp add: has_token_search get_habit_def)
qed

lemma small_numerals:
  "''10'' \<noteq> []" "list_all is_digit ''10''" "py_int ''10'' = Inr 10"
  "''4'' \<noteq> []" "list_all is_digit ''4''" "py_int ''4'' = Inr 4"
  "''2024-05-01'' \<noteq> []"
  by (simp_all add: py_int_def is_digit_def digit_val_def max_str_digits_def)

section \<open>The claims\<close>

text \<open>
  Claim C1, as it is stated, has the removal queued whenever the streak plus one has
  reached the goal. For the task whose streak is the run of 4300 nines and whose goal
  is 10, due today, the two numbers are read, the streak plus one has 4301 digits, and
  the pass raises \<^verbatim>\<open>ValueError\<close> when it formats the token: nothing is written and
  nothing is removed.
\<close>

theorem update_item_due_today_cex:
  "is_habit (token_task (nines max_str_digits) ''10'' ''2024-05-01'') = Inr True \<and>
   due_date (token_task (nines max_str_digits) ''10'' ''2024-05-01'') = Inr (Some ''2024-05-01'') \<and>
   current_streak (token_task (nines max_str_digits) ''10'' ''2024-05-01'')
     = Inr (10 ^ max_str_digits - 1) \<and>
   current_goal (token_task (nines max_str_digits) ''10'' ''2024-05-01'') = Inr 10 \<and>
   (10::int) \<le> (10 ^ max_str_digits - 1) + 1 \<and>
   update_item ''2024-05-01'' (token_task (nines max_str_digits) ''10'' ''2024-05-01'')
     = Inl ValueError"
proof -
  let ?t = "token_task (nines max_str_digits) ''10'' ''2024-05-01''"
  have n: "nines max_str_digits \<noteq> []" "list_all is_digit (nines max_str_digits)"
    using max_str_digits_pos by simp_all
  note f = is_habit_token_task [OF n small_numerals(1,2,7)]
  have s: "current_streak ?t = Inr (10 ^ max_str_digits - 1)"
    using py_int_nines [OF max_str_digits_pos] by (simp add: f(3))
  have g: "current_goal ?t = Inr 10"
    by (simp add: f(4) small_numerals)
  have "(10::int) ^ 1 \<le> 10 ^ max_str_digits"
    using max_str_digits_pos by (intro power_increasing) simp_all
  then have le: "(10::int) \<le> (10 ^ max_str_digits - 1) + 1"
    by simp
  have "\<not> (\<exists>s g. current_streak ?t = Inr s \<and> current_goal ?t = Inr g \<and>
                 s + 1 < 10 ^ max_str_digits)"
    by (simp add: s)
  from update_item_increase_error [OF f(1,2) this]
  have "update_item ''2024-05-01'' ?t = Inl ValueError" .
  with f(1,2) s g le show ?thesis
    by blast
qed

text \<open>
  Claim C1, amended. For an active habit whose streak and goal are read without error
  and whose due date is today: when the streak plus one has at most 4300 digits, one
  pass writes the streak plus one with the goal unchanged into every token, leaves the
  due date alone, and queues the removal of the item exactly when the new streak has
  reached the goal; otherwise the pass raises \<^verbatim>\<open>ValueError\<close>. When the streak is
  the goal minus one, the first case holds, the token becomes
  \<^verbatim>\<open>[day goal/goal]\<close> and the item is deleted.
\<close>

theorem update_item_due_today:
  assumes "is_habit t = Inr True" "due_date t = Inr (Some today)"
    "current_streak t = Inr s" "current_goal t = Inr g"
  shows "(s = g - 1 \<longrightarrow> s + 1 < 10 ^ max_str_digits) \<and>
     (if s + 1 < 10 ^ max_str_digits
      then (\<exists>t' m tok days. update_item today t = Inr t' \<and> get_habit t = Some m \<and>
         content (item t) = m_pre m @ tok @ m_post m \<and> is_token tok \<and>
         format_days (s + 1) g = Inr days \<and>
         days = ''[day '' @ show_nat (nat (s + 1)) @ ''/'' @ show_nat (nat g) @ '']'' \<and>
         content (item t') = m_pre m @ days @ sub days (m_post m) \<and>
         current_streak t' = Inr (s + 1) \<and> current_goal t' = Inr g \<and>
         due (item t') = due (item t) \<and>
         queue t' = queue t @ Item_update_content (item_id (item t)) (content (item t')) #
           (if g \<le> s + 1 then [Item_delete (item_id (item t))] else []) \<and>
         is_deleted (item t') = (is_deleted (item t) \<or> g \<le> s + 1) \<and>
         (s = g - 1 \<longrightarrow>
            days = ''[day '' @ show_nat (nat g) @ ''/'' @ show_nat (nat g) @ '']'' \<and>
            is_deleted (item t') \<and> Item_delete (item_id (item t)) \<in> set (queue t')))
      else update_item today t = Inl ValueError)"
proof (intro conjI impI)
  assume "s = g - 1"
  with goal_range [OF assms(4)] show "s + 1 < 10 ^ max_str_digits"
    by auto
next
  show "if s + 1 < 10 ^ max_str_digits
      then (\<exists>t' m tok days. update_item today t = Inr t' \<and> get_habit t = Some m \<and>
         content (item t) = m_pre m @ tok @ m_post m \<and> is_token tok \<and>
         format_days (s + 1) g = Inr days \<and>
         days = ''[day '' @ show_nat (nat (s + 1)) @ ''/'' @ show_nat (nat g) @ '']'' \<and>
         content (item t') = m_pre m @ days @ sub days (m_post m) \<and>
         current_streak t' = Inr (s + 1) \<and> current_goal t' = Inr g \<and>
         due (item t') = due (item t) \<and>
         queue t' = queue t @ Item_update_content (item_id (item t)) (content (item t')) #
           (if g \<le> s + 1 then [Item_delete (item_id (item t))] else []) \<and>
         is_deleted (item t') = (is_deleted (item t) \<or> g \<le> s + 1) \<and>
         (s = g - 1 \<longrightarrow>
            days = ''[day '' @ show_nat (nat g) @ ''/'' @ show_nat (nat g) @ '']'' \<and>
            is_deleted (item t') \<and> Item_delete (item_id (item t)) \<in> set (queue t')))
      else update_item today t = Inl ValueError"
  proof (cases "s + 1 < 10 ^ max_str_digits")
    case False
    with assms(3,4) have "\<not> (\<exists>s g. current_streak t = Inr s \<and> current_goal t = Inr g \<and>
                 s + 1 < 10 ^ max_str_digits)"
      by simp
    from update_item_increase_error [OF assms(1,2) this] False show ?thesis
      by simp
  next
    case True
    from streak_range [OF assms(3)] obtain m where m: "get_habit t = Some m" "0 \<le> s"
      by blast
    from goal_range [OF assms(4)] have g: "0 \<le> g" "g < 10 ^ max_str_digits"
      by auto
    from m(2) have s1: "0 \<le> s + 1"
      by simp
    from m(1) have "search (content (item t)) = Some m"
      by (simp add: get_habit_def)
    from search_token [OF this] obtain tok
      where tok: "content (item t) = m_pre m @ tok @ m_post m" "is_token tok"
      by blast
    from set_streak_writes [OF m(1) s1 True g] obtain u days
      where u: "format_days (s + 1) g = Inr days" "set_streak (s + 1) g t = Inr u"
        "days = ''[day '' @ show_nat (nat (s + 1)) @ ''/'' @ show_nat (nat g) @ '']''"
        "item u = (item t)\<lparr>content := m_pre m @ days @ sub days (m_post m)\<rparr>"
        "queue u = queue t @ [Item_update_content (item_id (item t)) (content (item u))]"
        "current_streak u = Inr (s + 1)" "current_goal u = Inr g"
      by blast
    let ?t' = "if g \<le> s + 1 then delete_task u else u"
    from update_item_increase [OF assms True] u(2)
    have up: "update_item today t = Inr ?t'"
      by auto
    have it: "item ?t' = (item u)\<lparr>is_deleted := (is_deleted (item t) \<or> g \<le> s + 1)\<rparr>"
      by (simp add: delete_task_def item_delete_def u(4))
    have c: "content (item ?t') = m_pre m @ days @ sub days (m_post m)"
      by (simp add: it u(4))
    have p: "current_streak ?t' = Inr (s + 1)" "current_goal ?t' = Inr g"
      using u(6,7) observers_item(5,6) [of ?t' "u\<lparr>item := item ?t'\<rparr>"]
      by (simp_all add: delete_task_def item_delete_def current_streak_def current_goal_def
          get_habit_def)
    have d: "due (item ?t') = due (item t)"
      by (simp add: it u(4))
    have q: "queue ?t' = queue t @ Item_update_content (item_id (item t)) (content (item ?t')) #
           (if g \<le> s + 1 then [Item_delete (item_id (item t))] else [])"
      by (simp add: delete_task_def item_delete_def u(4,5))
    have del: "is_deleted (item ?t') = (is_deleted (item t) \<or> g \<le> s + 1)"
      by (simp add: it)
    have last: "s = g - 1 \<longrightarrow>
            days = ''[day '' @ show_nat (nat g) @ ''/'' @ show_nat (nat g) @ '']'' \<and>
            is_deleted (item ?t') \<and> Item_delete (item_id (item t)) \<in> set (queue ?t')"
    proof
      assume "s = g - 1"
      then have "s + 1 = g"
        by simp
      with u(3) del q
      show "days = ''[day '' @ show_nat (nat g) @ ''/'' @ show_nat (nat g) @ '']'' \<and>
            is_deleted (item ?t') \<and> Item_delete (item_id (item t)) \<in> set (queue ?t')"
        by simp
    qed
    from up m(1) tok u(1,3) c p d q del last
    have "\<exists>t' m tok days. update_item today t = Inr t' \<and> get_habit t = Some m \<and>
         content (item t) = m_pre m @ tok @ m_post m \<and> is_token tok \<and>
         format_days (s + 1) g = Inr days \<and>
         days = ''[day '' @ show_nat (nat (s + 1)) @ ''/'' @ show_nat (nat g) @ '']'' \<and>
         content (item t') = m_pre m @ days @ sub days (m_post m) \<and>
         current_streak t' = Inr (s + 1) \<and> current_goal t' = Inr g \<and>
         due (item t') = due (item t) \<and>
         queue t' = queue t @ Item_update_content (item_id (item t)) (content (item t')) #
           (if g \<le> s + 1 then [Item_delete (item_id (item t))] else []) \<and>
         is_deleted (item t') = (is_deleted (item t) \<or> g \<le> s + 1) \<and>
         (s = g - 1 \<longrightarrow>
            days = ''[day '' @ show_nat (nat g) @ ''/'' @ show_nat (nat g) @ '']'' \<and>
            is_deleted (item t') \<and> Item_delete (item_id (item t)) \<in> set (queue t'))"
      by blast
    with True show ?thesis
      by simp
  qed
qed

theorem update_item_due_today_witness:
  "is_habit (habit_task ''Meditate [day 9/10]'' ''2024-05-01'') = Inr True \<and>
   due_date (habit_task ''Meditate [day 9/10]'' ''2024-05-01'') = Inr (Some ''2024-05-01'') \<and>
   current_streak (habit_task ''Meditate [day 9/10]'' ''2024-05-01'') = Inr 9 \<and>
   current_goal (habit_task ''Meditate [day 9/10]'' ''2024-05-01'') = Inr 10 \<and>
   (9::int) + 1 < 10 ^ max_str_digits \<and>
   (\<exists>t'. update_item ''2024-05-01'' (habit_task ''Meditate [day 9/10]'' ''2024-05-01'') = Inr t' \<and>
      current_streak t' = Inr (9 + 1) \<and> current_goal t' = Inr 10 \<and>
      is_deleted (item t') \<and>
      Item_delete (item_id (item (habit_task ''Meditate [day 9/10]'' ''2024-05-01''))) \<in> set (queue t')) \<and>
   update_item ''2024-05-01'' (habit_task ''Meditate [day 9/10]'' ''2024-05-01'') =
     Inr \<lparr>item = \<lparr>item_id = 1, content = ''Meditate [day 10/10]'',
                due = Some [(''date'', ''2024-05-01'')], in_history = False, is_deleted = True\<rparr>,
          queue = [Item_update_content 1 ''Meditate [day 10/10]'', Item_delete 1]\<rparr>"
proof -
  let ?t = "habit_task ''Meditate [day 9/10]'' ''2024-05-01''"
  have h: "is_habit ?t = Inr True"
    by code_simp
  have d: "due_date ?t = Inr (Some ''2024-05-01'')"
    by code_simp
  have s: "current_streak ?t = Inr 9"
    by code_simp
  have g: "current_goal ?t = Inr 10"
    by code_simp
  have e: "update_item ''2024-05-01'' ?t =
     Inr \<lparr>item = \<lparr>item_id = 1, content = ''Meditate [day 10/10]'',
                due = Some [(''date'', ''2024-05-01'')], in_history = False, is_deleted = True\<rparr>,
          queue = [Item_update_content 1 ''Meditate [day 10/10]'', Item_delete 1]\<rparr>"
    by code_simp
  note th = update_item_due_today [OF h d s g]
  from th have "(9::int) = 10 - 1 \<longrightarrow> (9::int) + 1 < 10 ^ max_str_digits"
    by (rule conjunct1)
  then have lim: "(9::int) + 1 < 10 ^ max_str_digits"
    by simp
  from th [THEN conjunct2] lim
  have "\<exists>t'. update_item ''2024-05-01'' ?t = Inr t' \<and>
      current_streak t' = Inr (9 + 1) \<and> current_goal t' = Inr 10 \<and>
      is_deleted (item t') \<and> Item_delete (item_id (item ?t)) \<in> set (queue t')"
    by (simp only: if_True) fastforce
  with h d s g lim e show ?thesis
    by blast
qed

text \<open>
  Claim C2, as it is stated, has the pass write the recurrence
  \<^verbatim>\<open>every day starting {today}\<close> for every active habit that is due on another
  day. On the task \<^verbatim>\<open>Meditate [day 4/10]\<close>, due on 2024-05-01 and evaluated on
  2024-05-02, the pass writes \<^verbatim>\<open>ev day starting 2024-05-02\<close>, which is another
  string. On the active habit whose goal is the run of 4301 nines the pass writes
  nothing: reading the goal raises \<^verbatim>\<open>ValueError\<close>.
\<close>

theorem update_item_due_elsewhere_cex:
  "is_habit (habit_task ''Meditate [day 4/10]'' ''2024-05-01'') = Inr True \<and>
   due_date (habit_task ''Meditate [day 4/10]'' ''2024-05-01'') = Inr (Some ''2024-05-01'') \<and>
   ''2024-05-01'' \<noteq> ''2024-05-02'' \<and>
   update_item ''2024-05-02'' (habit_task ''Meditate [day 4/10]'' ''2024-05-01'') =
     Inr \<lparr>item = \<lparr>item_id = 1, content = ''Meditate [day 0/10]'',
                due = Some [(''string'', ''ev day starting 2024-05-02'')],
                in_history = False, is_deleted = False\<rparr>,
          queue = [Item_update_content 1 ''Meditate [day 0/10]'',
                   Item_update_due 1 [(''string'', ''ev day starting 2024-05-02'')]]\<rparr> \<and>
   ''ev day starting 2024-05-02'' \<noteq> ''every day starting 2024-05-02'' \<and>
   is_habit (token_task ''4'' (nines (Suc max_str_digits)) ''2024-05-01'') = Inr True \<and>
   due_date (token_task ''4'' (nines (Suc max_str_digits)) ''2024-05-01'')
     = Inr (Some ''2024-05-01'') \<and>
   update_item ''2024-05-02'' (token_task ''4'' (nines (Suc max_str_digits)) ''2024-05-01'')
     = Inl ValueError"
proof -
  let ?t = "habit_task ''Meditate [day 4/10]'' ''2024-05-01''"
  let ?u = "token_task ''4'' (nines (Suc max_str_digits)) ''2024-05-01''"
  have a: "is_habit ?t = Inr True \<and> due_date ?t = Inr (Some ''2024-05-01'') \<and>
     ''2024-05-01'' \<noteq> ''2024-05-02'' \<and>
     update_item ''2024-05-02'' ?t =
     Inr \<lparr>item = \<lparr>item_id = 1, content = ''Meditate [day 0/10]'',
                due = Some [(''string'', ''ev day starting 2024-05-02'')],
                in_history = False, is_deleted = False\<rparr>,
          queue = [Item_update_content 1 ''Meditate [day 0/10]'',
                   Item_update_due 1 [(''string'', ''ev day starting 2024-05-02'')]]\<rparr> \<and>
     ''ev day starting 2024-05-02'' \<noteq> ''every day starting 2024-05-02''"
    by code_simp
  have n: "nines (Suc max_str_digits) \<noteq> []" "list_all is_digit (nines (Suc max_str_digits))"
    by simp_all
  note f = is_habit_token_task [OF small_numerals(4,5) n small_numerals(7)]
  have "current_goal ?u = Inl ValueError"
    using py_int_nines [of "Suc max_str_digits"] by (simp add: f(4))
  from update_item_reset_error [OF f(1,2) _ this, of "''2024-05-02''"]
  have "update_item ''2024-05-02'' ?u = Inl ValueError"
    by simp
  with a f(1,2) show ?thesis
    by blast
qed

text \<open>
  Claim C2, amended. For an active habit whose goal is read without error (its run of
  digits has at most 4300 digits) and whose due date is not today, one pass sets the
  streak to zero with the goal unchanged, in every token of the text, replaces the due
  field by the dictionary with the single entry \<^verbatim>\<open>string\<close> =
  \<^verbatim>\<open>ev day starting {today}\<close>, and queues a new text and a new due date and no
  removal.
\<close>

theorem update_item_due_elsewhere:
  assumes "is_habit t = Inr True" "due_date t = Inr d" "d \<noteq> Some today" "current_goal t = Inr g"
  shows "\<exists>t' m tok days. update_item today t = Inr t' \<and> get_habit t = Some m \<and>
     length (group2 m) \<le> max_str_digits \<and>
     content (item t) = m_pre m @ tok @ m_post m \<and> is_token tok \<and>
     format_days 0 g = Inr days \<and>
     days = ''[day '' @ show_nat 0 @ ''/'' @ show_nat (nat g) @ '']'' \<and>
     content (item t') = m_pre m @ days @ sub days (m_post m) \<and>
     current_streak t' = Inr 0 \<and> current_goal t' = Inr g \<and>
     due (item t') = Some [(''string'', ''ev day starting '' @ today)] \<and>
     is_deleted (item t') = is_deleted (item t) \<and>
     queue t' = queue t @
       [Item_update_content (item_id (item t)) (content (item t')),
        Item_update_due (item_id (item t)) [(''string'', ''ev day starting '' @ today)]]"
proof -
  from goal_range [OF assms(4)] obtain m
    where m: "get_habit t = Some m" "0 \<le> g" "g < 10 ^ max_str_digits"
    by blast
  from get_habit_reads(2) [OF m(1)] assms(4) have len: "length (group2 m) \<le> max_str_digits"
    by auto
  from m(1) have "search (content (item t)) = Some m"
    by (simp add: get_habit_def)
  from search_token [OF this] obtain tok
    where tok: "content (item t) = m_pre m @ tok @ m_post m" "is_token tok"
    by blast
  have z: "(0::int) < 10 ^ max_str_digits"
    by simp
  from set_streak_writes [OF m(1) order_refl z m(2,3)] obtain u days
    where u: "format_days 0 g = Inr days" "set_streak 0 g t = Inr u"
      "days = ''[day '' @ show_nat (nat 0) @ ''/'' @ show_nat (nat g) @ '']''"
      "item u = (item t)\<lparr>content := m_pre m @ days @ sub days (m_post m)\<rparr>"
      "queue u = queue t @ [Item_update_content (item_id (item t)) (content (item u))]"
      "current_streak u = Inr 0" "current_goal u = Inr g"
    by blast
  let ?t' = "item_update_due (ev_day_starting today) u"
  from update_item_reset [OF assms] u(2) have up: "update_item today t = Inr ?t'"
    by auto
  have dd: "days = ''[day '' @ show_nat 0 @ ''/'' @ show_nat (nat g) @ '']''"
    using u(3) by simp
  have c: "content (item ?t') = m_pre m @ days @ sub days (m_post m)"
    by (simp add: item_update_due_def u(4))
  have p: "current_streak ?t' = Inr 0" "current_goal ?t' = Inr g"
    using u(6,7)
    by (simp_all add: item_update_due_def current_streak_def current_goal_def get_habit_def)
  have d: "due (item ?t') = Some [(''string'', ''ev day starting '' @ today)]"
    by (simp add: item_update_due_def ev_day_starting_def)
  have del: "is_deleted (item ?t') = is_deleted (item t)"
    by (simp add: item_update_due_def u(4))
  have q: "queue ?t' = queue t @
       [Item_update_content (item_id (item t)) (content (item ?t')),
        Item_update_due (item_id (item t)) [(''string'', ''ev day starting '' @ today)]]"
    by (simp add: item_update_due_def ev_day_starting_def u(4,5))
  from up m(1) len tok u(1) dd c p d del q show ?thesis
    by blast
qed

theorem update_item_due_elsewhere_witness:
  "is_habit (habit_task ''Meditate [day 4/10]'' ''2024-05-01'') = Inr True \<and>
   due_date (habit_task ''Meditate [day 4/10]'' ''2024-05-01'') = Inr (Some ''2024-05-01'') \<and>
   Some ''2024-05-01'' \<noteq> Some ''2024-05-02'' \<and>
   current_goal (habit_task ''Meditate [day 4/10]'' ''2024-05-01'') = Inr 10 \<and>
   (\<exists>t' m tok days.
      update_item ''2024-05-02'' (habit_task ''Meditate [day 4/10]'' ''2024-05-01'') = Inr t' \<and>
      get_habit (habit_task ''Meditate [day 4/10]'' ''2024-05-01'') = Some m \<and>
      length (group2 m) \<le> max_str_digits \<and>
      content (item (habit_task ''Meditate [day 4/10]'' ''2024-05-01''))
        = m_pre m @ tok @ m_post m \<and> is_token tok \<and>
      format_days 0 10 = Inr days \<and>
      days = ''[day '' @ show_nat 0 @ ''/'' @ show_nat (nat 10) @ '']'' \<and>
      content (item t') = m_pre m @ days @ sub days (m_post m) \<and>
      current_streak t' = Inr 0 \<and> current_goal t' = Inr 10 \<and>
      due (item t') = Some [(''string'', ''ev day starting '' @ ''2024-05-02'')] \<and>
      is_deleted (item t') = is_deleted (item (habit_task ''Meditate [day 4/10]'' ''2024-05-01'')) \<and>
      queue t' = queue (habit_task ''Meditate [day 4/10]'' ''2024-05-01'') @
        [Item_update_content (item_id (item (habit_task ''Meditate [day 4/10]'' ''2024-05-01'')))
           (content (item t')),
         Item_update_due (item_id (item (habit_task ''Meditate [day 4/10]'' ''2024-05-01'')))
           [(''string'', ''ev day starting '' @ ''2024-05-02'')]])"
proof -
  let ?t = "habit_task ''Meditate [day 4/10]'' ''2024-05-01''"
  have h: "is_habit ?t = Inr True"
    by code_simp
  have d: "due_date ?t = Inr (Some ''2024-05-01'')"
    by code_simp
  have n: "Some ''2024-05-01'' \<noteq> Some ''2024-05-02''"
    by simp
  have g: "current_goal ?t = Inr 10"
    by code_simp
  show ?thesis
    by (rule conjI [OF h conjI [OF d conjI [OF n conjI [OF g update_item_due_elsewhere [OF h d n g]]]]])
qed

text \<open>
  Claim C3, as it is stated, has \<open>set_streak\<close> replace the first token only and keep
  later tokens as they are, for every streak and goal. On the text
  \<^verbatim>\<open>[day 1/2] and [day 3/4]\<close> it replaces both tokens, where the reading of the
  claim, \<open>renderToken_first\<close>, keeps the second. For a streak of 4301 digits it raises
  \<^verbatim>\<open>ValueError\<close> and replaces nothing.
\<close>

theorem set_streak_not_first_only:
  "has_token ''[day 1/2] and [day 3/4]'' \<and>
   set_streak 5 6 (habit_task ''[day 1/2] and [day 3/4]'' ''2024-05-01'') =
     Inr \<lparr>item = \<lparr>item_id = 1, content = ''[day 5/6] and [day 5/6]'',
                due = Some [(''date'', ''2024-05-01'')], in_history = False, is_deleted = False\<rparr>,
          queue = [Item_update_content 1 ''[day 5/6] and [day 5/6]'']\<rparr> \<and>
   format_days 5 6 = Inr ''[day 5/6]'' \<and>
   renderToken_first ''[day 5/6]'' ''[day 1/2] and [day 3/4]'' = ''[day 5/6] and [day 3/4]'' \<and>
   ''[day 5/6] and [day 5/6]'' \<noteq> ''[day 5/6] and [day 3/4]'' \<and>
   set_streak (10 ^ max_str_digits) 6 (habit_task ''[day 1/2] and [day 3/4]'' ''2024-05-01'')
     = Inl ValueError"
proof -
  have a: "has_token ''[day 1/2] and [day 3/4]''"
    unfolding has_token_search by code_simp
  have b: "set_streak 5 6 (habit_task ''[day 1/2] and [day 3/4]'' ''2024-05-01'') =
     Inr \<lparr>item = \<lparr>item_id = 1, content = ''[day 5/6] and [day 5/6]'',
                due = Some [(''date'', ''2024-05-01'')], in_history = False, is_deleted = False\<rparr>,
          queue = [Item_update_content 1 ''[day 5/6] and [day 5/6]'']\<rparr> \<and>
   format_days 5 6 = Inr ''[day 5/6]'' \<and>
   renderToken_first ''[day 5/6]'' ''[day 1/2] and [day 3/4]'' = ''[day 5/6] and [day 3/4]'' \<and>
   ''[day 5/6] and [day 5/6]'' \<noteq> ''[day 5/6] and [day 3/4]''"
    by code_simp
  have "format_days (10 ^ max_str_digits) 6 = Inl ValueError"
    using format_days_nonneg [of "10 ^ max_str_digits" 6] by simp
  then have "set_streak (10 ^ max_str_digits) 6 (habit_task ''[day 1/2] and [day 3/4]'' ''2024-05-01'')
     = Inl ValueError"
    by (rule set_streak_days(2))
  with a b show ?thesis
    by blast
qed

text \<open>
  Claim C3, amended. For a text with a token and a streak and a goal of at most 4300
  digits each, \<open>set_streak\<close> keeps the text before the first token, replaces the first
  token by \<^verbatim>\<open>[day {streak}/{goal}]\<close>, and treats the text after that token in the
  same way: every later token is replaced too and all other characters are kept. When
  the text after the first token has no token, this is the replacement of the first
  token alone. For a streak or a goal of more digits it raises \<^verbatim>\<open>ValueError\<close>.
\<close>

theorem set_streak_replaces_every_token:
  assumes "has_token (content (item t))"
  shows "if \<bar>streak\<bar> < 10 ^ max_str_digits \<and> \<bar>goal\<bar> < 10 ^ max_str_digits
     then (\<exists>t' m tok days. format_days streak goal = Inr days \<and>
        set_streak streak goal t = Inr t' \<and> get_habit t = Some m \<and>
        content (item t) = m_pre m @ tok @ m_post m \<and> is_token tok \<and>
        (\<forall>p tok' r. content (item t) = p @ tok' @ r \<and> is_token tok' \<longrightarrow>
           length (m_pre m) \<le> length p) \<and>
        content (item t') = m_pre m @ days @ sub days (m_post m) \<and>
        (\<forall>x. has_token x \<longrightarrow>
           (\<exists>m' tok'. search x = Some m' \<and> x = m_pre m' @ tok' @ m_post m' \<and> is_token tok' \<and>
              sub days x = m_pre m' @ days @ sub days (m_post m'))) \<and>
        (\<forall>x. \<not> has_token x \<longrightarrow> sub days x = x) \<and>
        (\<not> has_token (m_post m) \<longrightarrow>
           content (item t') = renderToken_first days (content (item t))))
     else set_streak streak goal t = Inl ValueError"
proof (cases "\<bar>streak\<bar> < 10 ^ max_str_digits \<and> \<bar>goal\<bar> < 10 ^ max_str_digits")
  case False
  with format_days_Inr_iff [of streak goal] obtain e where "format_days streak goal = Inl e"
    by (cases "format_days streak goal") auto
  with format_days_error [OF this] have "set_streak streak goal t = Inl ValueError"
    by (simp add: set_streak_days(2))
  with False show ?thesis
    by simp
next
  case True
  with format_days_Inr_iff [of streak goal] obtain days where days: "format_days streak goal = Inr days"
    by blast
  from assms obtain m where m: "search (content (item t)) = Some m"
    by (auto simp: has_token_search)
  from search_token [OF m] obtain tok
    where tok: "content (item t) = m_pre m @ tok @ m_post m" "is_token tok"
    by blast
  let ?t' = "item_update_content (sub days (content (item t))) t"
  have u: "set_streak streak goal t = Inr ?t'"
    by (rule set_streak_days(1) [OF days])
  have left: "\<forall>p tok' r. content (item t) = p @ tok' @ r \<and> is_token tok' \<longrightarrow>
           length (m_pre m) \<le> length p"
    using search_leftmost [OF m] by blast
  have c: "content (item ?t') = m_pre m @ days @ sub days (m_post m)"
    by (simp add: item_update_content_def sub_search_Some [OF m])
  have all: "\<forall>x. has_token x \<longrightarrow>
           (\<exists>m' tok'. search x = Some m' \<and> x = m_pre m' @ tok' @ m_post m' \<and> is_token tok' \<and>
              sub days x = m_pre m' @ days @ sub days (m_post m'))"
  proof (intro allI impI)
    fix x
    assume "has_token x"
    then obtain m' where m': "search x = Some m'"
      by (auto simp: has_token_search)
    from search_token [OF m'] sub_search_Some [OF m', of days] m'
    show "\<exists>m' tok'. search x = Some m' \<and> x = m_pre m' @ tok' @ m_post m' \<and> is_token tok' \<and>
              sub days x = m_pre m' @ days @ sub days (m_post m')"
      by blast
  qed
  have none: "\<forall>x. \<not> has_token x \<longrightarrow> sub days x = x"
    by (simp add: has_token_search sub_search_None)
  have first: "\<not> has_token (m_post m) \<longrightarrow>
           content (item ?t') = renderToken_first days (content (item t))"
    using none by (simp add: c renderToken_first_def m)
  from days u m tok left c all none first
  have "\<exists>t' m tok days. format_days streak goal = Inr days \<and>
        set_streak streak goal t = Inr t' \<and> get_habit t = Some m \<and>
        content (item t) = m_pre m @ tok @ m_post m \<and> is_token tok \<and>
        (\<forall>p tok' r. content (item t) = p @ tok' @ r \<and> is_token tok' \<longrightarrow>
           length (m_pre m) \<le> length p) \<and>
        content (item t') = m_pre m @ days @ sub days (m_post m) \<and>
        (\<forall>x. has_token x \<longrightarrow>
           (\<exists>m' tok'. search x = Some m' \<and> x = m_pre m' @ tok' @ m_post m' \<and> is_token tok' \<and>
              sub days x = m_pre m' @ days @ sub days (m_post m'))) \<and>
        (\<forall>x. \<not> has_token x \<longrightarrow> sub days x = x) \<and>
        (\<not> has_token (m_post m) \<longrightarrow>
           content (item t') = renderToken_first days (content (item t)))"
    unfolding get_habit_def by blast
  with True show ?thesis
    by simp
qed

theorem set_streak_replaces_every_token_witness:
  "has_token (content (item (habit_task ''a [day 1/2] b [day 3/4] c'' ''2024-05-01''))) \<and>
   \<bar>5::int\<bar> < 10 ^ max_str_digits \<and> \<bar>6::int\<bar> < 10 ^ max_str_digits \<and>
   (\<exists>t' m tok days. format_days 5 6 = Inr days \<and>
      set_streak 5 6 (habit_task ''a [day 1/2] b [day 3/4] c'' ''2024-05-01'') = Inr t' \<and>
      get_habit (habit_task ''a [day 1/2] b [day 3/4] c'' ''2024-05-01'') = Some m \<and>
      content (item (habit_task ''a [day 1/2] b [day 3/4] c'' ''2024-05-01''))
        = m_pre m @ tok @ m_post m \<and> is_token tok \<and>
      content (item t') = m_pre m @ days @ sub days (m_post m)) \<and>
   set_streak 5 6 (habit_task ''a [day 1/2] b [day 3/4] c'' ''2024-05-01'') =
     Inr \<lparr>item = \<lparr>item_id = 1, content = ''a [day 5/6] b [day 5/6] c'',
                due = Some [(''date'', ''2024-05-01'')], in_history = False, is_deleted = False\<rparr>,
          queue = [Item_update_content 1 ''a [day 5/6] b [day 5/6] c'']\<rparr>"
proof -
  let ?t = "habit_task ''a [day 1/2] b [day 3/4] c'' ''2024-05-01''"
  have h: "has_token (content (item ?t))"
    unfolding has_token_search by code_simp
  have "(10::int) ^ 1 \<le> 10 ^ max_str_digits"
    using max_str_digits_pos by (intro power_increasing) simp_all
  then have l: "\<bar>5::int\<bar> < 10 ^ max_str_digits" "\<bar>6::int\<bar> < 10 ^ max_str_digits"
    by simp_all
  have e: "set_streak 5 6 ?t =
     Inr \<lparr>item = \<lparr>item_id = 1, content = ''a [day 5/6] b [day 5/6] c'',
                due = Some [(''date'', ''2024-05-01'')], in_history = False, is_deleted = False\<rparr>,
          queue = [Item_update_content 1 ''a [day 5/6] b [day 5/6] c'']\<rparr>"
    by code_simp
  from set_streak_replaces_every_token [OF h, of 5 6] l
  have "\<exists>t' m tok days. format_days 5 6 = Inr days \<and> set_streak 5 6 ?t = Inr t' \<and>
      get_habit ?t = Some m \<and> content (item ?t) = m_pre m @ tok @ m_post m \<and> is_token tok \<and>
      content (item t') = m_pre m @ days @ sub days (m_post m)"
    by (simp only: simp_thms if_True) blast
  with h l e show ?thesis
    by blast
qed

text \<open>
  Claim C4, as it is stated, has the round trip for every streak and goal that are not
  negative. For the streak \<open>10 ^ 4300\<close>, which has 4301 digits, \<open>set_streak\<close> raises
  \<^verbatim>\<open>ValueError\<close> and there is nothing to read back.
\<close>

theorem parse_after_set_streak_cex:
  "has_token (content (item (habit_task ''Read [day 1/2]'' ''2024-05-01''))) \<and>
   (0::int) \<le> 10 ^ max_str_digits \<and> (0::int) \<le> 5 \<and>
   set_streak (10 ^ max_str_digits) 5 (habit_task ''Read [day 1/2]'' ''2024-05-01'')
     = Inl ValueError"
proof -
  have a: "has_token (content (item (habit_task ''Read [day 1/2]'' ''2024-05-01'')))"
    unfolding has_token_search by code_simp
  have "format_days (10 ^ max_str_digits) 5 = Inl ValueError"
    using format_days_nonneg [of "10 ^ max_str_digits" 5] by simp
  then have "set_streak (10 ^ max_str_digits) 5 (habit_task ''Read [day 1/2]'' ''2024-05-01'')
     = Inl ValueError"
    by (rule set_streak_days(2))
  with a show ?thesis
    by simp
qed

text \<open>
  Claim C4, amended. For a text with a token and a streak and a goal that are not
  negative and have at most 4300 digits each (they are below \<open>10 ^ 4300\<close>), reading
  the text that \<open>set_streak\<close> wrote gives back the streak and the goal; the two groups
  of the match are the plain decimal numerals of the two numbers.
\<close>

theorem parse_after_set_streak:
  assumes "has_token (content (item t))"
    "0 \<le> streak" "streak < 10 ^ max_str_digits" "0 \<le> goal" "goal < 10 ^ max_str_digits"
  shows "\<exists>t' m. set_streak streak goal t = Inr t' \<and> get_habit t' = Some m \<and>
     py_str streak = Inr (group1 m) \<and> py_str goal = Inr (group2 m) \<and>
     plain_decimal (group1 m) \<and> plain_decimal (group2 m) \<and>
     py_int (group1 m) = Inr streak \<and> py_int (group2 m) = Inr goal \<and>
     current_streak t' = Inr streak \<and> current_goal t' = Inr goal"
proof -
  from assms(1) obtain m where m: "get_habit t = Some m"
    by (auto simp: has_token_search get_habit_def)
  from set_streak_writes [OF m assms(2-5)] obtain t' days
    where t': "set_streak streak goal t = Inr t'"
      "get_habit t' = Some \<lparr>m_pre = m_pre m, group1 = show_nat (nat streak),
         group2 = show_nat (nat goal), m_post = sub days (m_post m)\<rparr>"
      "current_streak t' = Inr streak" "current_goal t' = Inr goal"
    by blast
  have "py_str streak = Inr (show_nat (nat streak))" "py_str goal = Inr (show_nat (nat goal))"
    using assms(2-5) by (simp_all add: py_str_nonneg)
  moreover have "py_int (show_nat (nat streak)) = Inr streak" "py_int (show_nat (nat goal)) = Inr goal"
    using assms(2-5) py_int_show_nat [of "nat streak"] py_int_show_nat [of "nat goal"]
    by simp_all
  ultimately show ?thesis
    using t' plain_decimal_show_nat [of "nat streak"] plain_decimal_show_nat [of "nat goal"]
    by simp
qed

theorem parse_after_set_streak_witness:
  "has_token (content (item (habit_task ''Read [day 007/21] daily'' ''2024-05-01''))) \<and>
   (0::int) \<le> 12 \<and> (12::int) < 10 ^ max_str_digits \<and>
   (0::int) \<le> 30 \<and> (30::int) < 10 ^ max_str_digits \<and>
   (\<exists>t' m. set_streak 12 30 (habit_task ''Read [day 007/21] daily'' ''2024-05-01'') = Inr t' \<and>
     get_habit t' = Some m \<and>
     py_str 12 = Inr (group1 m) \<and> py_str 30 = Inr (group2 m) \<and>
     plain_decimal (group1 m) \<and> plain_decimal (group2 m) \<and>
     py_int (group1 m) = Inr 12 \<and> py_int (group2 m) = Inr 30 \<and>
     current_streak t' = Inr 12 \<and> current_goal t' = Inr 30) \<and>
   set_streak 12 30 (habit_task ''Read [day 007/21] daily'' ''2024-05-01'') =
     Inr \<lparr>item = \<lparr>item_id = 1, content = ''Read [day 12/30] daily'',
                due = Some [(''date'', ''2024-05-01'')], in_history = False, is_deleted = False\<rparr>,
          queue = [Item_update_content 1 ''Read [day 12/30] daily'']\<rparr>"
proof -
  let ?t = "habit_task ''Read [day 007/21] daily'' ''2024-05-01''"
  have h: "has_token (content (item ?t))"
    unfolding has_token_search by code_simp
  have "(10::int) ^ 2 \<le> 10 ^ max_str_digits"
    by (intro power_increasing) (simp_all add: max_str_digits_def)
  then have a: "(0::int) \<le> 12" and a': "(12::int) < 10 ^ max_str_digits"
    and b: "(0::int) \<le> 30" and b': "(30::int) < 10 ^ max_str_digits"
    by simp_all
  have e: "set_streak 12 30 ?t =
     Inr \<lparr>item = \<lparr>item_id = 1, content = ''Read [day 12/30] daily'',
                due = Some [(''date'', ''2024-05-01'')], in_history = False, is_deleted = False\<rparr>,
          queue = [Item_update_content 1 ''Read [day 12/30] daily'']\<rparr>"
    by code_simp
  show ?thesis
    by (rule conjI [OF h conjI [OF a conjI [OF a' conjI [OF b conjI [OF b'
          conjI [OF parse_after_set_streak [OF h a a' b b'] e]]]]]])
qed

text \<open>
  Claim C5. A task whose text has no token, or that has no due date (no due field, a due
  field without a date, or an empty date), or that is archived, is left as it is by a
  pass, whatever today is: the item is unchanged and nothing is queued.
\<close>

theorem update_item_skips_non_habit:
  assumes "\<not> has_token (content (item t)) \<or> due (item t) = None \<or>
     (\<exists>kv. due (item t) = Some kv \<and> (map_of kv ''date'' = None \<or> map_of kv ''date'' = Some [])) \<or>
     in_history (item t)"
  shows "update_item today t = Inr t"
proof -
  from assms have "is_habit t \<noteq> Inr True"
    by (auto simp: is_habit_True_iff has_token_search get_habit_def)
  with is_habit_total [of t] have "is_habit t = Inr False"
    by auto
  then show ?thesis
    by (rule update_item_not_habit)
qed

theorem update_item_skips_non_habit_witness:
  "\<not> has_token (content (item (habit_task ''Buy milk'' ''2024-05-01''))) \<and>
   update_item ''2024-05-02'' (habit_task ''Buy milk'' ''2024-05-01'')
     = Inr (habit_task ''Buy milk'' ''2024-05-01'') \<and>
   due (item \<lparr>item = \<lparr>item_id = 2, content = ''Meditate [day 4/10]'', due = None,
                 in_history = False, is_deleted = False\<rparr>, queue = []\<rparr>) = None \<and>
   update_item ''2024-05-02''
     \<lparr>item = \<lparr>item_id = 2, content = ''Meditate [day 4/10]'', due = None,
              in_history = False, is_deleted = False\<rparr>, queue = []\<rparr>
     = Inr \<lparr>item = \<lparr>item_id = 2, content = ''Meditate [day 4/10]'', due = None,
              in_history = False, is_deleted = False\<rparr>, queue = []\<rparr> \<and>
   in_history (item \<lparr>item = \<lparr>item_id = 3, content = ''Meditate [day 4/10]'',
                 due = Some [(''date'', ''2024-05-01'')],
                 in_history = True, is_deleted = False\<rparr>, queue = []\<rparr>) \<and>
   update_item ''2024-05-01''
     \<lparr>item = \<lparr>item_id = 3, content = ''Meditate [day 4/10]'',
              due = Some [(''date'', ''2024-05-01'')],
              in_history = True, is_deleted = False\<rparr>, queue = []\<rparr>
     = Inr \<lparr>item = \<lparr>item_id = 3, content = ''Meditate [day 4/10]'',
              due = Some [(''date'', ''2024-05-01'')],
              in_history = True, is_deleted = False\<rparr>, queue = []\<rparr>"
proof -
  let ?t = "habit_task ''Buy milk'' ''2024-05-01''"
  let ?u = "\<lparr>item = \<lparr>item_id = 2, content = ''Meditate [day 4/10]'', due = None,
                 in_history = False, is_deleted = False\<rparr>, queue = []\<rparr>"
  let ?v = "\<lparr>item = \<lparr>item_id = 3, content = ''Meditate [day 4/10]'',
                 due = Some [(''date'', ''2024-05-01'')],
                 in_history = True, is_deleted = False\<rparr>, queue = []\<rparr>"
  have t: "\<not> has_token (content (item ?t))"
    unfolding has_token_search by code_simp
  have u: "due (item ?u) = None"
    by simp
  have v: "in_history (item ?v)"
    by simp
  have "update_item ''2024-05-02'' ?t = Inr ?t"
    by (rule update_item_skips_non_habit) (use t in blast)
  moreover have "update_item ''2024-05-02'' ?u = Inr ?u"
    by (rule update_item_skips_non_habit) (use u in blast)
  moreover have "update_item ''2024-05-01'' ?v = Inr ?v"
    by (rule update_item_skips_non_habit) (use v in blast)
  ultimately show ?thesis
    using t u v by blast
qed

text \<open>
  Claim C6, as it is stated, has \<open>decrease\<close> lower the streak for every text with a
  token. On the text whose streak is the run of 4301 nines, reading the streak raises
  \<^verbatim>\<open>ValueError\<close> and nothing is written.
\<close>

theorem decrease_floors_at_zero_cex:
  "has_token (content (item (token_task (nines (Suc max_str_digits)) ''10'' ''2024-05-01''))) \<and>
   decrease ''2024-05-02'' (token_task (nines (Suc max_str_digits)) ''10'' ''2024-05-01'')
     = Inl ValueError"
proof -
  let ?t = "token_task (nines (Suc max_str_digits)) ''10'' ''2024-05-01''"
  have n: "nines (Suc max_str_digits) \<noteq> []" "list_all is_digit (nines (Suc max_str_digits))"
    by simp_all
  note f = is_habit_token_task [OF n small_numerals(1,2,7)]
  have "current_streak ?t = Inl ValueError"
    using py_int_nines [of "Suc max_str_digits"] by (simp add: f(3))
  then have "decrease ''2024-05-02'' ?t = Inl ValueError"
    by (simp add: decrease_def)
  with f(5) show ?thesis
    by simp
qed

text \<open>
  Claim C6, amended. For a text with a token whose two runs of digits have at most
  4300 digits each, \<open>decrease\<close> does not raise; it writes the streak minus one, or
  zero when that would be negative, into every token, keeps the goal and sets the
  recurrence string of the due field. A streak of zero stays zero, and the numeral that
  is written has no sign.
\<close>

theorem decrease_floors_at_zero:
  assumes "get_habit t = Some m" "length (group1 m) \<le> max_str_digits"
    "length (group2 m) \<le> max_str_digits"
  shows "\<exists>t' tok s g days. has_token (content (item t)) \<and>
     content (item t) = m_pre m @ tok @ m_post m \<and> is_token tok \<and>
     current_streak t = Inr s \<and> current_goal t = Inr g \<and>
     decrease today t = Inr t' \<and>
     format_days (max 0 (s - 1)) g = Inr days \<and>
     days = ''[day '' @ show_nat (nat (max 0 (s - 1))) @ ''/'' @ show_nat (nat g) @ '']'' \<and>
     content (item t') = m_pre m @ days @ sub days (m_post m) \<and>
     current_streak t' = Inr (max 0 (s - 1)) \<and> current_goal t' = Inr g \<and>
     due (item t') = Some [(''string'', ''ev day starting '' @ today)] \<and>
     (s = 0 \<longrightarrow> current_streak t' = Inr 0) \<and>
     plain_decimal (show_nat (nat (max 0 (s - 1)))) \<and>
     CHR ''-'' \<notin> set (show_nat (nat (max 0 (s - 1))))"
proof -
  from assms(1) have sm: "search (content (item t)) = Some m"
    by (simp add: get_habit_def)
  then have ht: "has_token (content (item t))"
    by (simp add: has_token_search)
  from search_token [OF sm] obtain tok
    where tok: "content (item t) = m_pre m @ tok @ m_post m" "is_token tok"
    by blast
  from get_habit_reads(1,2) [OF assms(1)] assms(2,3) obtain s g
    where sg: "current_streak t = Inr s" "current_goal t = Inr g"
    by blast
  from streak_range [OF sg(1)] goal_range [OF sg(2)]
  have r: "0 \<le> s" "s < 10 ^ max_str_digits" "0 \<le> g" "g < 10 ^ max_str_digits"
    by auto
  let ?k = "max 0 (s - 1)"
  from r have k: "0 \<le> ?k" "?k < 10 ^ max_str_digits"
    by simp_all
  from set_streak_writes [OF assms(1) k r(3,4)] obtain u days
    where u: "format_days ?k g = Inr days" "set_streak ?k g t = Inr u"
      "days = ''[day '' @ show_nat (nat ?k) @ ''/'' @ show_nat (nat g) @ '']''"
      "item u = (item t)\<lparr>content := m_pre m @ days @ sub days (m_post m)\<rparr>"
      "current_streak u = Inr ?k" "current_goal u = Inr g"
    by blast
  let ?t' = "item_update_due (ev_day_starting today) u"
  have up: "decrease today t = Inr ?t'"
    using sg u(2) by (simp add: decrease_def Let_def)
  have c: "content (item ?t') = m_pre m @ days @ sub days (m_post m)"
    by (simp add: item_update_due_def u(4))
  have p: "current_streak ?t' = Inr ?k" "current_goal ?t' = Inr g"
    using u(5,6)
    by (simp_all add: item_update_due_def current_streak_def current_goal_def get_habit_def)
  have d: "due (item ?t') = Some [(''string'', ''ev day starting '' @ today)]"
    by (simp add: item_update_due_def ev_day_starting_def)
  have z: "s = 0 \<longrightarrow> current_streak ?t' = Inr 0"
  proof
    assume "s = 0"
    then have "max 0 (s - 1) = 0"
      by simp
    then show "current_streak ?t' = Inr 0"
      using p(1) by (simp only:)
  qed
  have pd: "plain_decimal (show_nat (nat ?k))"
    by (rule plain_decimal_show_nat)
  then have "list_all is_digit (show_nat (nat ?k))"
    by (simp add: plain_decimal_def)
  then have nm: "CHR ''-'' \<notin> set (show_nat (nat ?k))"
    by (auto simp: list_all_iff is_digit_def)
  from ht tok sg up u(1,3) c p d z pd nm show ?thesis
    by blast
qed

theorem decrease_floors_at_zero_witness:
  "get_habit (habit_task ''Run [day 0/30]'' ''2024-05-01'')
     = Some \<lparr>m_pre = ''Run '', group1 = ''0'', group2 = ''30'', m_post = []\<rparr> \<and>
   length ''0'' \<le> max_str_digits \<and> length ''30'' \<le> max_str_digits \<and>
   (\<exists>t'. decrease ''2024-05-02'' (habit_task ''Run [day 0/30]'' ''2024-05-01'') = Inr t' \<and>
      current_streak t' = Inr 0 \<and> current_goal t' = Inr 30 \<and>
      due (item t') = Some [(''string'', ''ev day starting '' @ ''2024-05-02'')]) \<and>
   decrease ''2024-05-02'' (habit_task ''Run [day 0/30]'' ''2024-05-01'') =
     Inr \<lparr>item = \<lparr>item_id = 1, content = ''Run [day 0/30]'',
                due = Some [(''string'', ''ev day starting 2024-05-02'')],
                in_history = False, is_deleted = False\<rparr>,
          queue = [Item_update_content 1 ''Run [day 0/30]'',
                   Item_update_due 1 [(''string'', ''ev day starting 2024-05-02'')]]\<rparr> \<and>
   decrease ''2024-05-02'' (habit_task ''Run [day 7/30]'' ''2024-05-01'') =
     Inr \<lparr>item = \<lparr>item_id = 1, content = ''Run [day 6/30]'',
                due = Some [(''string'', ''ev day starting 2024-05-02'')],
                in_history = False, is_deleted = False\<rparr>,
          queue = [Item_update_content 1 ''Run [day 6/30]'',
                   Item_update_due 1 [(''string'', ''ev day starting 2024-05-02'')]]\<rparr>"
proof -
  let ?t = "habit_task ''Run [day 0/30]'' ''2024-05-01''"
  let ?m = "\<lparr>m_pre = ''Run '', group1 = ''0'', group2 = ''30'', m_post = []\<rparr>"
  have gh: "get_habit ?t = Some ?m"
    by code_simp
  have l: "length ''0'' \<le> max_str_digits" "length ''30'' \<le> max_str_digits"
    by (simp_all add: max_str_digits_def)
  have sg: "current_streak ?t = Inr 0" "current_goal ?t = Inr 30"
    by code_simp+
  have e: "decrease ''2024-05-02'' ?t =
     Inr \<lparr>item = \<lparr>item_id = 1, content = ''Run [day 0/30]'',
                due = Some [(''string'', ''ev day starting 2024-05-02'')],
                in_history = False, is_deleted = False\<rparr>,
          queue = [Item_update_content 1 ''Run [day 0/30]'',
                   Item_update_due 1 [(''string'', ''ev day starting 2024-05-02'')]]\<rparr>"
    by code_simp
  have f: "decrease ''2024-05-02'' (habit_task ''Run [day 7/30]'' ''2024-05-01'') =
     Inr \<lparr>item = \<lparr>item_id = 1, content = ''Run [day 6/30]'',
                due = Some [(''string'', ''ev day starting 2024-05-02'')],
                in_history = False, is_deleted = False\<rparr>,
          queue = [Item_update_content 1 ''Run [day 6/30]'',
                   Item_update_due 1 [(''string'', ''ev day starting 2024-05-02'')]]\<rparr>"
    by code_simp
  have l': "length (group1 ?m) \<le> max_str_digits" "length (group2 ?m) \<le> max_str_digits"
    using l by simp_all
  from decrease_floors_at_zero [OF gh l', of "''2024-05-02''"]
  obtain t' s g where "current_streak ?t = Inr s" "current_goal ?t = Inr g"
    "decrease ''2024-05-02'' ?t = Inr t'"
    "current_streak t' = Inr (max 0 (s - 1))" "current_goal t' = Inr g"
    "due (item t') = Some [(''string'', ''ev day starting '' @ ''2024-05-02'')]"
    by blast
  with sg have "\<exists>t'. decrease ''2024-05-02'' ?t = Inr t' \<and>
      current_streak t' = Inr 0 \<and> current_goal t' = Inr 30 \<and>
      due (item t') = Some [(''string'', ''ev day starting '' @ ''2024-05-02'')]"
    by auto
  with gh l e f show ?thesis
    by blast
qed

text \<open>
  Claim C7. For a text without a token, \<open>set_streak\<close> leaves the text, and the whole
  item, as it is: when the two numbers have at most 4300 digits each it returns the
  task with the same item, and otherwise it raises before it touches the item.
\<close>

theorem set_streak_without_token:
  assumes "\<not> has_token (content (item t))"
  shows "set_streak streak goal t =
     (if \<bar>streak\<bar> < 10 ^ max_str_digits \<and> \<bar>goal\<bar> < 10 ^ max_str_digits
      then Inr \<lparr>item = item t,
                queue = queue t @ [Item_update_content (item_id (item t)) (content (item t))]\<rparr>
      else Inl ValueError)"
proof (cases "format_days streak goal")
  case (Inl e)
  with format_days_Inr_iff [of streak goal] format_days_error [OF Inl] show ?thesis
    by (simp add: set_streak_days(2))
next
  case (Inr days)
  from assms have "sub days (content (item t)) = content (item t)"
    by (simp add: has_token_search sub_search_None)
  with Inr format_days_Inr_iff [of streak goal] show ?thesis
    by (auto simp: set_streak_days(1) item_update_content_def)
qed

theorem set_streak_without_token_witness:
  "\<not> has_token (content (item (habit_task ''Buy milk'' ''2024-05-01''))) \<and>
   set_streak 3 21 (habit_task ''Buy milk'' ''2024-05-01'') =
     Inr \<lparr>item = item (habit_task ''Buy milk'' ''2024-05-01''),
          queue = [Item_update_content 1 ''Buy milk'']\<rparr> \<and>
   content (item (habit_task ''Buy milk'' ''2024-05-01'')) = ''Buy milk''"
proof -
  let ?t = "habit_task ''Buy milk'' ''2024-05-01''"
  have h: "\<not> has_token (content (item ?t))"
    unfolding has_token_search by code_simp
  have "(10::int) ^ 2 \<le> 10 ^ max_str_digits"
    by (intro power_increasing) (simp_all add: max_str_digits_def)
  then have l: "\<bar>3::int\<bar> < 10 ^ max_str_digits" "\<bar>21::int\<bar> < 10 ^ max_str_digits"
    by simp_all
  have c: "content (item ?t) = ''Buy milk''" "queue ?t = []" "item_id (item ?t) = 1"
    by (simp_all add: habit_task_def)
  from set_streak_without_token [OF h, of 3 21] l
  have "set_streak 3 21 ?t =
     Inr \<lparr>item = item ?t, queue = [Item_update_content 1 ''Buy milk'']\<rparr>"
    by (simp only: c simp_thms if_True append_Nil)
  with h c(1) show ?thesis
    by blast
qed

text \<open>
  Claim C8, as it is stated, gives every task of a pass one of the four outcomes. In the
  pass over the single active habit whose streak is the run of 4300 nines, due today,
  formatting the next streak raises \<^verbatim>\<open>ValueError\<close>: the pass ends there, the item
  has no outcome and nothing is committed.
\<close>

theorem update_streak_one_outcome_each_cex:
  "is_habit (token_task (nines max_str_digits) ''10'' ''2024-05-01'') = Inr True \<and>
   update_streak ''2024-05-01'' [item (token_task (nines max_str_digits) ''10'' ''2024-05-01'')]
     = Inl ValueError"
proof -
  let ?t = "token_task (nines max_str_digits) ''10'' ''2024-05-01''"
  have n: "nines max_str_digits \<noteq> []" "list_all is_digit (nines max_str_digits)"
    using max_str_digits_pos by simp_all
  note f = is_habit_token_task [OF n small_numerals(1,2,7)]
  have s: "current_streak ?t = Inr (10 ^ max_str_digits - 1)"
    using py_int_nines [OF max_str_digits_pos] by (simp add: f(3))
  have "\<not> (\<exists>s g. current_streak ?t = Inr s \<and> current_goal ?t = Inr g \<and>
                 s + 1 < 10 ^ max_str_digits)"
    by (simp add: s)
  from update_item_increase_error [OF f(1,2) this]
  have "update_item ''2024-05-01'' ?t = Inl ValueError" .
  moreover have "?t = \<lparr>item = item ?t, queue = []\<rparr>"
    by (simp add: token_task_def)
  ultimately have "update_item ''2024-05-01'' \<lparr>item = item ?t, queue = []\<rparr> = Inl ValueError"
    by simp
  then have "update_streak ''2024-05-01'' [item ?t] = Inl ValueError"
    by (simp add: update_streak_def)
  with f(1) show ?thesis
    by simp
qed

text \<open>
  Claim C8, amended. When every item of the list is within the limit on digits (it is
  no active habit, or its goal, and when it is due today also its streak and its next
  streak, have at most 4300 digits), the pass does not raise, the commands it commits
  are, item by item and in the order of the items, the commands of the loop body for
  that item; for every item they form exactly one of the four outcomes, and never hold
  both a new due date and a removal. When some item is not within the limit, the pass
  raises \<^verbatim>\<open>ValueError\<close> and commits nothing.
\<close>

theorem update_streak_one_outcome_each:
  "if list_all (within_limit today) its
   then (\<exists>res. update_streak today its = Inr (map fst res, concat (map snd res)) \<and>
     list_all2
       (\<lambda>it (it', cmds).
          update_item today \<lparr>item = it, queue = []\<rparr> = Inr \<lparr>item = it', queue = cmds\<rparr> \<and>
          (\<exists>!oc. outcome_of cmds = Some oc) \<and> \<not> (resets cmds \<and> deletes cmds))
       its res)
   else update_streak today its = Inl ValueError"
proof (cases "list_all (within_limit today) its")
  case True
  from update_items_outcomes [OF True, of "[]"] True show ?thesis
    by (simp add: update_streak_def)
next
  case False
  from update_items_over_limit [OF False, of "[]"] False show ?thesis
    by (simp add: update_streak_def)
qed

theorem update_streak_one_outcome_each_witness:
  "list_all (within_limit ''2024-05-01'')
       [item (habit_task ''Meditate [day 4/10]'' ''2024-05-01''),
        item (habit_task ''Read [day 9/10]'' ''2024-05-01''),
        item (habit_task ''Run [day 4/10]'' ''2024-04-30''),
        item (habit_task ''Buy milk'' ''2024-05-01'')] \<and>
   (\<exists>res. update_streak ''2024-05-01''
       [item (habit_task ''Meditate [day 4/10]'' ''2024-05-01''),
        item (habit_task ''Read [day 9/10]'' ''2024-05-01''),
        item (habit_task ''Run [day 4/10]'' ''2024-04-30''),
        item (habit_task ''Buy milk'' ''2024-05-01'')]
       = Inr (map fst res, concat (map snd res)) \<and>
     list_all2
       (\<lambda>it (it', cmds).
          update_item ''2024-05-01'' \<lparr>item = it, queue = []\<rparr> = Inr \<lparr>item = it', queue = cmds\<rparr> \<and>
          (\<exists>!oc. outcome_of cmds = Some oc) \<and> \<not> (resets cmds \<and> deletes cmds))
       [item (habit_task ''Meditate [day 4/10]'' ''2024-05-01''),
        item (habit_task ''Read [day 9/10]'' ''2024-05-01''),
        item (habit_task ''Run [day 4/10]'' ''2024-04-30''),
        item (habit_task ''Buy milk'' ''2024-05-01'')] res) \<and>
   update_streak ''2024-05-01''
       [item (habit_task ''Meditate [day 4/10]'' ''2024-05-01''),
        item (habit_task ''Read [day 9/10]'' ''2024-05-01''),
        item (habit_task ''Run [day 4/10]'' ''2024-04-30''),
        item (habit_task ''Buy milk'' ''2024-05-01'')]
     = Inr ([\<lparr>item_id = 1, content = ''Meditate [day 5/10]'',
                due = Some [(''date'', ''2024-05-01'')], in_history = False, is_deleted = False\<rparr>,
             \<lparr>item_id = 1, content = ''Read [day 10/10]'',
                due = Some [(''date'', ''2024-05-01'')], in_history = False, is_deleted = True\<rparr>,
             \<lparr>item_id = 1, content = ''Run [day 0/10]'',
                due = Some [(''string'', ''ev day starting 2024-05-01'')],
                in_history = False, is_deleted = False\<rparr>,
             \<lparr>item_id = 1, content = ''Buy milk'',
                due = Some [(''date'', ''2024-05-01'')], in_history = False, is_deleted = False\<rparr>],
            [Item_update_content 1 ''Meditate [day 5/10]'',
             Item_update_content 1 ''Read [day 10/10]'', Item_delete 1,
             Item_update_content 1 ''Run [day 0/10]'',
             Item_update_due 1 [(''string'', ''ev day starting 2024-05-01'')]]) \<and>
   outcome_of [Item_update_content 1 ''Meditate [day 5/10]''] = Some Increment \<and>
   outcome_of [Item_update_content 1 ''Read [day 10/10]'', Item_delete 1] = Some Increment_Delete \<and>
   outcome_of [Item_update_content 1 ''Run [day 0/10]'',
               Item_update_due 1 [(''string'', ''ev day starting 2024-05-01'')]] = Some Reset \<and>
   outcome_of [] = Some Skip"
proof -
  let ?its = "[item (habit_task ''Meditate [day 4/10]'' ''2024-05-01''),
        item (habit_task ''Read [day 9/10]'' ''2024-05-01''),
        item (habit_task ''Run [day 4/10]'' ''2024-04-30''),
        item (habit_task ''Buy milk'' ''2024-05-01'')]"
  have e: "update_streak ''2024-05-01'' ?its
     = Inr ([\<lparr>item_id = 1, content = ''Meditate [day 5/10]'',
                due = Some [(''date'', ''2024-05-01'')], in_history = False, is_deleted = False\<rparr>,
             \<lparr>item_id = 1, content = ''Read [day 10/10]'',
                due = Some [(''date'', ''2024-05-01'')], in_history = False, is_deleted = True\<rparr>,
             \<lparr>item_id = 1, content = ''Run [day 0/10]'',
                due = Some [(''string'', ''ev day starting 2024-05-01'')],
                in_history = False, is_deleted = False\<rparr>,
             \<lparr>item_id = 1, content = ''Buy milk'',
                due = Some [(''date'', ''2024-05-01'')], in_history = False, is_deleted = False\<rparr>],
            [Item_update_content 1 ''Meditate [day 5/10]'',
             Item_update_content 1 ''Read [day 10/10]'', Item_delete 1,
             Item_update_content 1 ''Run [day 0/10]'',
             Item_update_due 1 [(''string'', ''ev day starting 2024-05-01'')]])"
    by code_simp
  have o: "outcome_of [Item_update_content 1 ''Meditate [day 5/10]''] = Some Increment \<and>
   outcome_of [Item_update_content 1 ''Read [day 10/10]'', Item_delete 1] = Some Increment_Delete \<and>
   outcome_of [Item_update_content 1 ''Run [day 0/10]'',
               Item_update_due 1 [(''string'', ''ev day starting 2024-05-01'')]] = Some Reset \<and>
   outcome_of [] = Some Skip"
    by simp
  note th = update_streak_one_outcome_each [of "''2024-05-01''" ?its]
  have w: "list_all (within_limit ''2024-05-01'') ?its"
  proof (rule ccontr)
    assume "\<not> list_all (within_limit ''2024-05-01'') ?its"
    with th have "update_streak ''2024-05-01'' ?its = Inl ValueError"
      by (simp only: if_False)
    with e show False
      by simp
  qed
  with th have x: "\<exists>res. update_streak ''2024-05-01'' ?its = Inr (map fst res, concat (map snd res)) \<and>
     list_all2
       (\<lambda>it (it', cmds).
          update_item ''2024-05-01'' \<lparr>item = it, queue = []\<rparr> = Inr \<lparr>item = it', queue = cmds\<rparr> \<and>
          (\<exists>!oc. outcome_of cmds = Some oc) \<and> \<not> (resets cmds \<and> deletes cmds))
       ?its res"
    by (simp only: if_True)
  show ?thesis
    by (rule conjI [OF w conjI [OF x conjI [OF e o]]])
qed

text \<open>
  Claim C9, as it is stated, has the reads of the streak and the goal never fail once
  \<open>is_habit\<close> has accepted the task. The task whose streak is the run of 4301 nines is
  accepted, and reading its streak raises \<^verbatim>\<open>ValueError\<close>.
\<close>

theorem habit_gate_makes_parse_safe_cex:
  "is_habit (token_task (nines (Suc max_str_digits)) ''10'' ''2024-05-01'') = Inr True \<and>
   current_streak (token_task (nines (Suc max_str_digits)) ''10'' ''2024-05-01'')
     = Inl ValueError"
proof -
  have n: "nines (Suc max_str_digits) \<noteq> []" "list_all is_digit (nines (Suc max_str_digits))"
    by simp_all
  note f = is_habit_token_task [OF n small_numerals(1,2,7)]
  have "current_streak (token_task (nines (Suc max_str_digits)) ''10'' ''2024-05-01'')
     = Inl ValueError"
    using py_int_nines [of "Suc max_str_digits"] by (simp add: f(3))
  with f(1) show ?thesis
    by simp
qed

text \<open>
  Claim C9, amended. When \<open>is_habit\<close> accepts a task, the text has a match, so the
  branch in which the match is \<^verbatim>\<open>None\<close> is not reached; reading the streak
  returns an integer exactly when the first run of digits has at most 4300 digits, and
  reading the goal exactly when the second has, and otherwise the read raises
  \<^verbatim>\<open>ValueError\<close>. \<open>is_habit\<close> itself returns a truth value for every task, and
  \<open>False\<close> when the due field is \<^verbatim>\<open>None\<close>.
\<close>

theorem habit_gate_makes_parse_safe:
  "(is_habit t = Inr True \<longrightarrow>
      (\<exists>m. get_habit t = Some m \<and>
         ((\<exists>s. current_streak t = Inr s) \<longleftrightarrow> length (group1 m) \<le> max_str_digits) \<and>
         ((\<exists>g. current_goal t = Inr g) \<longleftrightarrow> length (group2 m) \<le> max_str_digits) \<and>
         (\<forall>e. current_streak t = Inl e \<or> current_goal t = Inl e \<longrightarrow> e = ValueError))) \<and>
   (\<exists>b. is_habit t = Inr b) \<and>
   (due (item t) = None \<longrightarrow> is_habit t = Inr False)"
proof (intro conjI impI)
  assume "is_habit t = Inr True"
  then obtain m where m: "get_habit t = Some m"
    by (auto simp: is_habit_True_iff)
  from get_habit_reads [OF m] m
  show "\<exists>m. get_habit t = Some m \<and>
         ((\<exists>s. current_streak t = Inr s) \<longleftrightarrow> length (group1 m) \<le> max_str_digits) \<and>
         ((\<exists>g. current_goal t = Inr g) \<longleftrightarrow> length (group2 m) \<le> max_str_digits) \<and>
         (\<forall>e. current_streak t = Inl e \<or> current_goal t = Inl e \<longrightarrow> e = ValueError)"
    by blast
next
  show "\<exists>b. is_habit t = Inr b"
    by (rule is_habit_total)
next
  assume "due (item t) = None"
  then show "is_habit t = Inr False"
    by (simp add: is_habit_def)
qed

theorem habit_gate_makes_parse_safe_witness:
  "is_habit (habit_task ''Meditate [day 4/10]'' ''2024-05-01'') = Inr True \<and>
   get_habit (habit_task ''Meditate [day 4/10]'' ''2024-05-01'')
     = Some \<lparr>m_pre = ''Meditate '', group1 = ''4'', group2 = ''10'', m_post = []\<rparr> \<and>
   length ''4'' \<le> max_str_digits \<and> length ''10'' \<le> max_str_digits \<and>
   (\<exists>s. current_streak (habit_task ''Meditate [day 4/10]'' ''2024-05-01'') = Inr s) \<and>
   (\<exists>g. current_goal (habit_task ''Meditate [day 4/10]'' ''2024-05-01'') = Inr g) \<and>
   current_streak (habit_task ''Meditate [day 4/10]'' ''2024-05-01'') = Inr 4 \<and>
   current_goal (habit_task ''Meditate [day 4/10]'' ''2024-05-01'') = Inr 10 \<and>
   due (item \<lparr>item = \<lparr>item_id = 2, content = ''Meditate [day 4/10]'', due = None,
                 in_history = False, is_deleted = False\<rparr>, queue = []\<rparr>) = None \<and>
   is_habit \<lparr>item = \<lparr>item_id = 2, content = ''Meditate [day 4/10]'', due = None,
                 in_history = False, is_deleted = False\<rparr>, queue = []\<rparr> = Inr False"
proof -
  let ?t = "habit_task ''Meditate [day 4/10]'' ''2024-05-01''"
  let ?u = "\<lparr>item = \<lparr>item_id = 2, content = ''Meditate [day 4/10]'', due = None,
                 in_history = False, is_deleted = False\<rparr>, queue = []\<rparr>"
  have h: "is_habit ?t = Inr True"
    by code_simp
  have gh: "get_habit ?t = Some \<lparr>m_pre = ''Meditate '', group1 = ''4'', group2 = ''10'', m_post = []\<rparr>"
    by code_simp
  have l: "length ''4'' \<le> max_str_digits" "length ''10'' \<le> max_str_digits"
    by (simp_all add: max_str_digits_def)
  have d: "due (item ?u) = None"
    by simp
  from habit_gate_makes_parse_safe [of ?t] h gh l
  have r: "\<exists>s. current_streak ?t = Inr s" "\<exists>g. current_goal ?t = Inr g"
    by auto
  have v: "current_streak ?t = Inr 4" "current_goal ?t = Inr 10"
    by code_simp+
  from habit_gate_makes_parse_safe [of ?u] d have "is_habit ?u = Inr False"
    by blast
  with h gh l r v d show ?thesis
    by blast
qed

text \<open>
  Claim C10. \<open>get_token\<close> raises exactly when the variable
  \<^verbatim>\<open>TODOIST_APIKEY\<close> is unset or empty, and returns its value otherwise. It is
  one lookup: the error is its result, and nothing is tried again.
\<close>

theorem get_token_raises_iff_unset:
  "((\<exists>e. get_token env = Inl e) \<longleftrightarrow>
      env ''TODOIST_APIKEY'' = None \<or> env ''TODOIST_APIKEY'' = Some []) \<and>
   (\<forall>tok. env ''TODOIST_APIKEY'' = Some tok \<and> tok \<noteq> [] \<longrightarrow> get_token env = Inr tok)"
  by (auto simp: get_token_def split: option.splits)

theorem get_token_raises_iff_unset_witness:
  "get_token [''TODOIST_APIKEY'' \<mapsto> ''0123abcd''] = Inr ''0123abcd'' \<and>
   (\<exists>e. get_token Map.empty = Inl e) \<and>
   (\<exists>e. get_token [''TODOIST_APIKEY'' \<mapsto> ''''] = Inl e)"
  using get_token_raises_iff_unset [of "[''TODOIST_APIKEY'' \<mapsto> ''0123abcd'']"]
    get_token_raises_iff_unset [of Map.empty]
    get_token_raises_iff_unset [of "[''TODOIST_APIKEY'' \<mapsto> '''']"]
  by simp

end
